theory Spec2Isabelle
  imports Main
begin

section \<open>Data model\<close>

text \<open>
  The bot keeps one document per guild (tenant). Its \<open>monitored_urls\<close> dictionary maps a
  project identifier to the watched project's data: the URL, the title, \<open>initial_funding\<close>
  and the list of custom thresholds. Python integers are unbounded, hence \<open>int\<close>.
  A key that \<open>data.get\<close> may find missing is an option (\<open>initial_funding\<close>); the code
  reads \<open>thresholds\<close> with \<open>data.get('thresholds', [])\<close>, so a missing list is the
  empty list. The price check reads the URL with \<open>data['url']\<close>, which raises
  \<open>KeyError\<close> when the entry has no such key, so \<open>url\<close> is an option as well. An entry
  without \<open>url\<close> is one the bot stores itself: the project-add command writes the new
  entry with \<open>$set\<close> on the path \<open>monitored_urls.<project_id>\<close>, and the store splits a
  path at every dot, so for the identifier \<open>a.b\<close> the dictionary gets the key \<open>a\<close> with
  the value \<open>{'b': {...}}\<close>, which has none of the four keys.
\<close>

record project =
  url :: "string option"
  title :: string
  initial_funding :: "int option"
  thresholds :: "int list"

text \<open>
  Python truthiness of an optional integer, as tested by \<open>if not current_funding\<close> and
  \<open>if not data.get('initial_funding')\<close>: \<open>None\<close> and \<open>0\<close> are false.
\<close>

fun truthy :: "int option \<Rightarrow> bool" where
  "truthy None = False"
| "truthy (Some n) = (n \<noteq> 0)"

text \<open>Truthiness of an optional string (\<open>if not project_title\<close>): \<open>None\<close> and \<open>''\<close> are false.\<close>

fun truthy_str :: "string option \<Rightarrow> bool" where
  "truthy_str None = False"
| "truthy_str (Some s) = (s \<noteq> [])"

text \<open>
  The three notifications of the price check: the monitoring-started message, the
  periodic milestone and the custom threshold, each with the amount it announces.
\<close>

datatype event = MonitoringStarted int | MilestoneEvent int | ThresholdEvent int

text \<open>
  The effects of processing one project, in the order the code performs them:
  \<open>Notify\<close> is a call of \<open>send_notifications\<close> (through
  \<open>send_milestone_notification\<close> for a milestone), \<open>SetInitialFunding\<close> and
  \<open>SetThresholds\<close> are the calls of \<open>update_server_config\<close> that store
  \<open>monitored_urls.<project_id>.initial_funding\<close> and
  \<open>monitored_urls.<project_id>.thresholds\<close>.
\<close>

datatype effect = Notify event | SetInitialFunding int | SetThresholds "int list"

text \<open>
  What \<open>get_project_data\<close> hands to its caller: the triple
  \<open>(project_title, current_funding, image_url)\<close>, which is \<open>(None, None, None)\<close> after a
  handled failure, or an exception that leaves the function.
\<close>

datatype scrape = ScrapeRaised | ScrapeResult "string option" "int option" "string option"

text \<open>
  The exceptions of a tick: one that left \<open>get_project_data\<close>, one raised by a
  notification, one raised by the store, and the \<open>KeyError\<close> of \<open>data['url']\<close>.
\<close>

datatype exn = ScrapeException | NotifyException | StoreException | KeyError

section \<open>Threshold check and milestone check\<close>

text \<open>
  The loop of \<open>check_custom_thresholds\<close>: every threshold that the current funding has
  reached is announced and appended to \<open>removed_thresholds\<close>. The result is the list of
  notifications in order and the list of removed thresholds.
\<close>

fun thresholds_loop :: "int \<Rightarrow> int list \<Rightarrow> effect list \<times> int list" where
  "thresholds_loop current_funding [] = ([], [])"
| "thresholds_loop current_funding (threshold # rest) =
     (let (sent, removed_thresholds) = thresholds_loop current_funding rest
      in if current_funding \<ge> threshold
         then (Notify (ThresholdEvent threshold) # sent, threshold # removed_thresholds)
         else (sent, removed_thresholds))"

text \<open>
  \<open>check_custom_thresholds\<close>: after the loop, when something was removed, the remaining
  list \<open>[t for t in thresholds if t not in removed_thresholds]\<close> is stored.
\<close>

definition check_custom_thresholds :: "int \<Rightarrow> project \<Rightarrow> effect list" where
  "check_custom_thresholds current_funding data =
     (let (sent, removed_thresholds) = thresholds_loop current_funding (thresholds data)
      in if removed_thresholds \<noteq> []
         then sent @ [SetThresholds (filter (\<lambda>t. t \<notin> set removed_thresholds) (thresholds data))]
         else sent)"

text \<open>
  The body of the inner loop of \<open>check_prices\<close> for one project, given what
  \<open>get_project_data\<close> returned: the effects it performs when every notification and
  store update returns normally. An exception of \<open>get_project_data\<close> leaves the
  \<open>try\<close> block at once.
\<close>

definition check_project :: "scrape \<Rightarrow> project \<Rightarrow> exn + effect list" where
  "check_project sc data =
     (case sc of
        ScrapeRaised \<Rightarrow> Inl ScrapeException
      | ScrapeResult _ funding _ \<Rightarrow>
          (case funding of
             None \<Rightarrow> Inr []
           | Some current_funding \<Rightarrow>
               if \<not> truthy funding then Inr []
               else if \<not> truthy (initial_funding data)
               then Inr [SetInitialFunding current_funding,
                         Notify (MonitoringStarted current_funding)]
               else (case initial_funding data of
                       None \<Rightarrow> Inr []
                     | Some initial \<Rightarrow>
                         if current_funding > initial
                         then (let base = (initial div 1000000) * 1000000;
                                   next_1m = base + 1000000
                               in Inr ((if current_funding \<ge> next_1m \<and> next_1m > initial
                                        then [Notify (MilestoneEvent next_1m),
                                              SetInitialFunding next_1m]
                                        else [])
                                       @ check_custom_thresholds current_funding data))
                         else Inr [])))"

text \<open>The effects of a cycle that did not end in an exception (none otherwise).\<close>

definition effects_of :: "exn + effect list \<Rightarrow> effect list" where
  "effects_of r = (case r of Inl _ \<Rightarrow> [] | Inr effs \<Rightarrow> effs)"

text \<open>The stored project after an effect, and after a list of effects.\<close>

fun apply_effect :: "effect \<Rightarrow> project \<Rightarrow> project" where
  "apply_effect (Notify _) data = data"
| "apply_effect (SetInitialFunding v) data = data\<lparr>initial_funding := Some v\<rparr>"
| "apply_effect (SetThresholds ts) data = data\<lparr>thresholds := ts\<rparr>"

fun persist :: "effect list \<Rightarrow> project \<Rightarrow> project" where
  "persist [] data = data"
| "persist (e # es) data = persist es (apply_effect e data)"

text \<open>The milestone amounts and the threshold amounts announced by a list of effects.\<close>

fun milestones :: "effect list \<Rightarrow> int list" where
  "milestones [] = []"
| "milestones (Notify (MilestoneEvent m) # es) = m # milestones es"
| "milestones (_ # es) = milestones es"

fun threshold_events :: "effect list \<Rightarrow> int list" where
  "threshold_events [] = []"
| "threshold_events (Notify (ThresholdEvent t) # es) = t # threshold_events es"
| "threshold_events (_ # es) = threshold_events es"

section \<open>Reading a project page\<close>

text \<open>
  One read of a project page, as the browser session answers it. Each step of
  \<open>get_project_data\<close> either yields its value or raises one of the exceptions the
  function distinguishes. \<open>driver_get\<close> stands for \<open>get_driver()\<close> followed by
  \<open>driver.get(url)\<close>; \<open>price_element\<close> for the wait on the funding element and the
  conversion of its text by \<open>int(...)\<close> (a \<open>ValueError\<close> of the conversion is
  \<open>OtherException\<close>); \<open>image_element\<close> for the wait on the cover image and the read of
  its \<open>src\<close> attribute. \<open>handler_raises\<close> says whether the logging of the outer
  handler, which reads \<open>driver.current_url\<close>, raises itself (it does when
  \<open>get_driver()\<close> failed, since \<open>driver\<close> is then unbound).
\<close>

datatype 'a attempt =
  Got 'a | TimeoutException | NoSuchElementException | WebDriverException | OtherException

record page =
  driver_get :: "unit attempt"
  title_element :: "string attempt"
  price_element :: "int attempt"
  image_element :: "string option attempt"
  handler_raises :: bool

text \<open>The outer \<open>except\<close> clauses: log, then \<open>return None, None, None\<close>.\<close>

definition outer_handler :: "page \<Rightarrow> scrape" where
  "outer_handler pg = (if handler_raises pg then ScrapeRaised else ScrapeResult None None None)"

definition get_project_data :: "page \<Rightarrow> scrape" where
  "get_project_data pg =
     (case driver_get pg of
        Got _ \<Rightarrow>
          (case title_element pg of
             Got project_title \<Rightarrow>
               (case price_element pg of
                  Got current_funding \<Rightarrow>
                    (case image_element pg of
                       Got image_url \<Rightarrow>
                         ScrapeResult (Some project_title) (Some current_funding) image_url
                     | TimeoutException \<Rightarrow>
                         ScrapeResult (Some project_title) (Some current_funding) None
                     | NoSuchElementException \<Rightarrow>
                         ScrapeResult (Some project_title) (Some current_funding) None
                     | _ \<Rightarrow> outer_handler pg)
                | _ \<Rightarrow> outer_handler pg)
           | _ \<Rightarrow> outer_handler pg)
      | _ \<Rightarrow> outer_handler pg)"

text \<open>A read has failed when it raised or returned no funding amount.\<close>

definition read_failed :: "scrape \<Rightarrow> bool" where
  "read_failed sc = (case sc of ScrapeRaised \<Rightarrow> True | ScrapeResult _ funding _ \<Rightarrow> funding = None)"

section \<open>The scheduler\<close>

text \<open>
  Notifications and store updates can raise. The control flow of the loop body does not
  depend on what they return, so running the body is performing its effects in order
  until one raises; \<open>raises\<close> says which calls do. The result is the list of effects
  that completed and the exception, if any, that ended the \<open>try\<close> block. The milestone
  and threshold properties below are about the effects \<open>check_project\<close> decides on,
  that is, about cycles in which no such call raises.
\<close>

fun exn_of :: "effect \<Rightarrow> exn" where
  "exn_of (Notify _) = NotifyException"
| "exn_of _ = StoreException"

fun run_effects :: "(effect \<Rightarrow> bool) \<Rightarrow> effect list \<Rightarrow> effect list \<times> exn option" where
  "run_effects raises [] = ([], None)"
| "run_effects raises (e # es) =
     (if raises e then ([], Some (exn_of e))
      else (let (completed, r) = run_effects raises es in (e # completed, r)))"

text \<open>The \<open>try\<close> block of the loop body of \<open>check_prices\<close>.\<close>

definition project_try :: "(effect \<Rightarrow> bool) \<Rightarrow> page \<Rightarrow> project \<Rightarrow> effect list \<times> exn option" where
  "project_try raises pg data =
     (case check_project (get_project_data pg) data of
        Inl e \<Rightarrow> ([], Some e)
      | Inr effs \<Rightarrow> run_effects raises effs)"

text \<open>
  The whole loop body: \<open>except Exception as e: logging.error(...)\<close> ends the iteration
  normally whatever the \<open>try\<close> block raised.
\<close>

definition project_iteration ::
  "(effect \<Rightarrow> bool) \<Rightarrow> page \<Rightarrow> project \<Rightarrow> effect list \<times> exn option" where
  "project_iteration raises pg data =
     (case project_try raises pg data of
        (completed, Some e) \<Rightarrow> (completed, None)
      | (completed, None) \<Rightarrow> (completed, None))"

text \<open>
  The per-guild document, and the world of one tick: whether the initial
  \<open>ensure_connection()\<close> and \<open>find()\<close> succeed, what the browser answers when the
  project \<open>project_id\<close> of guild \<open>g\<close> is read, and which notification and store calls
  made for that project raise. \<open>monitored_urls\<close> is the dictionary in iteration order.
\<close>

record server_config =
  guild_id :: int
  monitored_urls :: "(string \<times> project) list"
  notification_channels :: "int list option"

record world =
  connected :: bool
  pages :: "int \<Rightarrow> string \<Rightarrow> page"
  raises :: "int \<Rightarrow> string \<Rightarrow> effect \<Rightarrow> bool"

type_synonym entry = "int \<times> string \<times> effect"

text \<open>
  The two nested \<open>for\<close> loops. The first statement of the inner loop body,
  \<open>url = data['url']\<close>, stands in front of the \<open>try\<close>: its \<open>KeyError\<close> is not
  caught, ends both loops and leaves \<open>check_prices\<close>. An exception that left an
  iteration ends the loop; the loops pass it on.
\<close>

fun for_projects ::
  "world \<Rightarrow> int \<Rightarrow> (string \<times> project) list \<Rightarrow> entry list \<times> exn option" where
  "for_projects w g [] = ([], None)"
| "for_projects w g ((project_id, data) # rest) =
     (case url data of
        None \<Rightarrow> ([], Some KeyError)
      | Some _ \<Rightarrow>
          (case project_iteration (raises w g project_id) (pages w g project_id) data of
             (completed, Some e) \<Rightarrow> (map (\<lambda>eff. (g, project_id, eff)) completed, Some e)
           | (completed, None) \<Rightarrow>
               (let (log, r) = for_projects w g rest
                in (map (\<lambda>eff. (g, project_id, eff)) completed @ log, r))))"

fun for_guilds :: "world \<Rightarrow> server_config list \<Rightarrow> entry list \<times> exn option" where
  "for_guilds w [] = ([], None)"
| "for_guilds w (cfg # rest) =
     (case for_projects w (guild_id cfg) (monitored_urls cfg) of
        (log, Some e) \<Rightarrow> (log, Some e)
      | (log, None) \<Rightarrow> (let (log', r) = for_guilds w rest in (log @ log', r)))"

definition check_prices :: "world \<Rightarrow> server_config list \<Rightarrow> entry list \<times> exn option" where
  "check_prices w store =
     (if connected w then for_guilds w store else ([], Some StoreException))"

text \<open>
  The store after the completed effects of a tick: a store update addresses one field of
  one project of one guild by its path.
\<close>

definition store_update :: "entry \<Rightarrow> server_config list \<Rightarrow> server_config list" where
  "store_update en store =
     (case en of (g, project_id, eff) \<Rightarrow>
        map (\<lambda>cfg. if guild_id cfg = g
                  then cfg\<lparr>monitored_urls :=
                         map (\<lambda>(k, d). if k = project_id then (k, apply_effect eff d) else (k, d))
                             (monitored_urls cfg)\<rparr>
                  else cfg) store)"

fun store_after :: "entry list \<Rightarrow> server_config list \<Rightarrow> server_config list" where
  "store_after [] store = store"
| "store_after (en # log) store = store_after log (store_update en store)"

text \<open>What the store holds for project \<open>project_id\<close> of guild \<open>g\<close>.\<close>

definition stored :: "int \<Rightarrow> string \<Rightarrow> server_config list \<Rightarrow> project list" where
  "stored g project_id store =
     concat (map (\<lambda>cfg. if guild_id cfg = g
                        then map snd (filter (\<lambda>(k, d). k = project_id) (monitored_urls cfg))
                        else []) store)"

text \<open>
  The effects that every project contributes when each iteration is run on its own, the
  guilds all of whose entries have a \<open>url\<close>, and the effects of a log that address one
  project.
\<close>

definition own_entries :: "world \<Rightarrow> server_config \<Rightarrow> entry list" where
  "own_entries w cfg =
     concat (map (\<lambda>(project_id, data).
                    map (\<lambda>eff. (guild_id cfg, project_id, eff))
                        (fst (project_try (raises w (guild_id cfg) project_id)
                                          (pages w (guild_id cfg) project_id) data)))
                 (monitored_urls cfg))"

definition well_formed :: "server_config \<Rightarrow> bool" where
  "well_formed cfg = list_all (\<lambda>(project_id, data). url data \<noteq> None) (monitored_urls cfg)"

definition effects_for :: "int \<Rightarrow> string \<Rightarrow> entry list \<Rightarrow> effect list" where
  "effects_for g project_id log =
     map (\<lambda>(g', p', eff). eff) (filter (\<lambda>(g', p', eff). g' = g \<and> p' = project_id) log)"

section \<open>The notification dispatcher\<close>

text \<open>
  \<open>send_notifications\<close>: the lookup of the guild's document (\<open>ensure_connection()\<close> and
  \<open>find_one\<close>, which can raise), then one \<open>channel.send\<close> for every channel id that
  \<open>get_channel\<close> resolves. Only \<open>discord.HTTPException\<close> is caught and logged; any other
  exception of \<open>channel.send\<close> leaves the loop and the function (the HTTP client of
  discord.py re-raises, for instance, the \<open>OSError\<close> of a failed connection, which is
  not a \<open>discord.HTTPException\<close>). The result is the list of delivery attempts with
  their outcomes, and whether an exception left the function.
\<close>

datatype send_outcome = Delivered | HTTPException | OtherSendException

record discord =
  lookup_raises :: bool
  get_channel :: "int \<Rightarrow> bool"
  channel_send :: "int \<Rightarrow> send_outcome"

fun send_loop :: "discord \<Rightarrow> int list \<Rightarrow> (int \<times> send_outcome) list \<times> bool" where
  "send_loop d [] = ([], False)"
| "send_loop d (channel_id # rest) =
     (if get_channel d channel_id
      then (case channel_send d channel_id of
              Delivered \<Rightarrow>
                (let (attempts, r) = send_loop d rest
                 in ((channel_id, Delivered) # attempts, r))
            | HTTPException \<Rightarrow>
                (let (attempts, r) = send_loop d rest
                 in ((channel_id, HTTPException) # attempts, r))
            | OtherSendException \<Rightarrow> ([(channel_id, OtherSendException)], True))
      else send_loop d rest)"

definition send_notifications ::
  "discord \<Rightarrow> server_config option \<Rightarrow> (int \<times> send_outcome) list \<times> bool" where
  "send_notifications d server_config =
     (if lookup_raises d then ([], True)
      else (case server_config of
              None \<Rightarrow> ([], False)
            | Some cfg \<Rightarrow>
                (case notification_channels cfg of
                   None \<Rightarrow> ([], False)
                 | Some channels \<Rightarrow> send_loop d channels)))"

section \<open>The threshold-add command\<close>

text \<open>
  \<open>threshold_add\<close>: the project is the first one of the guild with the given title; an
  amount already in its list is rejected, otherwise the amount is appended, the list is
  sorted and stored. The result is the project identifier with the stored list, or
  \<open>None\<close> when the command was rejected.
\<close>

definition threshold_add ::
  "server_config option \<Rightarrow> string \<Rightarrow> int \<Rightarrow> (string \<times> int list) option" where
  "threshold_add server_config project_title amount =
     (case server_config of
        None \<Rightarrow> None
      | Some cfg \<Rightarrow>
          (case find (\<lambda>(project_id, data). title data = project_title) (monitored_urls cfg) of
             None \<Rightarrow> None
           | Some (project_id, data) \<Rightarrow>
               if amount \<in> set (thresholds data) then None
               else Some (project_id, sort (thresholds data @ [amount]))))"


section \<open>Project identifiers\<close>

text \<open>
  \<open>urlparse\<close> is Python's library function \<open>urllib.parse.urlparse\<close>. The model follows
  \<open>Lib/urllib/parse.py\<close> of CPython 3.12 for what decides its \<open>path\<close> component and
  for the \<open>ValueError\<close> it raises. Two validations of the network location differ
  between Python versions and need tables that are not modelled (the parse of a
  bracketed IP literal, the NFKC normalisation of a non-ASCII network location); they
  are the parameters \<open>bracketed_host_ok\<close> and \<open>nfkc_ok\<close>, consulted only where the
  library consults them. A string is a list of characters with a code below 256.
\<close>

record urllib =
  bracketed_host_ok :: "string \<Rightarrow> bool"
  nfkc_ok :: "string \<Rightarrow> bool"

definition is_alpha :: "char \<Rightarrow> bool" where
  "is_alpha c = (let n = (of_char c :: nat) in (65 \<le> n \<and> n \<le> 90) \<or> (97 \<le> n \<and> n \<le> 122))"

definition is_digit :: "char \<Rightarrow> bool" where
  "is_digit c = (let n = (of_char c :: nat) in 48 \<le> n \<and> n \<le> 57)"

definition scheme_char :: "char \<Rightarrow> bool" where
  "scheme_char c = (is_alpha c \<or> is_digit c \<or> c = CHR ''+'' \<or> c = CHR ''-'' \<or> c = CHR ''.'')"

definition lower :: "char \<Rightarrow> char" where
  "lower c = (let n = (of_char c :: nat) in if 65 \<le> n \<and> n \<le> 90 then char_of (n + 32) else c)"

definition is_ascii :: "string \<Rightarrow> bool" where
  "is_ascii s = list_all (\<lambda>c. (of_char c :: nat) < 128) s"

text \<open>
  The start of \<open>urlsplit\<close>: leading C0 control characters and spaces are stripped, and
  tab, carriage return and line feed are removed everywhere.
\<close>

definition clean_url :: "string \<Rightarrow> string" where
  "clean_url u =
     filter (\<lambda>c. c \<noteq> CHR 0x09 \<and> c \<noteq> CHR 0x0D \<and> c \<noteq> CHR 0x0A)
            (dropWhile (\<lambda>c. (of_char c :: nat) \<le> 32) u)"

text \<open>
  The scheme: with \<open>i = url.find(':')\<close>, when \<open>i > 0\<close>, the first character is an ASCII
  letter and every character in front of the colon is a scheme character, the scheme is the
  lower-cased \<open>url[:i]\<close> and the rest is \<open>url[i+1:]\<close>; otherwise the scheme is empty.
\<close>

definition split_scheme :: "string \<Rightarrow> string \<times> string" where
  "split_scheme u =
     (let scheme_part = takeWhile (\<lambda>c. c \<noteq> CHR '':'') u
      in (case scheme_part of
            [] \<Rightarrow> ([], u)
          | c # _ \<Rightarrow>
              if CHR '':'' \<in> set u \<and> is_alpha c \<and> list_all scheme_char scheme_part
              then (map lower scheme_part, drop (length scheme_part + 1) u)
              else ([], u)))"

definition netloc_delim :: "char \<Rightarrow> bool" where
  "netloc_delim c = (c = CHR ''/'' \<or> c = CHR ''?'' \<or> c = CHR ''#'')"

definition uses_params :: "string list" where
  "uses_params = ['''', ''ftp'', ''hdl'', ''prospero'', ''http'', ''imap'', ''https'', ''shttp'',
                  ''rtsp'', ''rtsps'', ''rtspu'', ''sip'', ''sips'', ''mms'', ''sftp'', ''tel'']"

text \<open>
  \<open>_splitparams\<close>, first component: the parameters start at the first semicolon of the
  last path segment.
\<close>

definition splitparams :: "string \<Rightarrow> string" where
  "splitparams u =
     (if CHR ''/'' \<in> set u
      then (let last_segment = rev (takeWhile (\<lambda>c. c \<noteq> CHR ''/'') (rev u));
                up_to_slash = rev (dropWhile (\<lambda>c. c \<noteq> CHR ''/'') (rev u))
            in if CHR '';'' \<in> set last_segment
               then up_to_slash @ takeWhile (\<lambda>c. c \<noteq> CHR '';'') last_segment
               else u)
      else takeWhile (\<lambda>c. c \<noteq> CHR '';'') u)"

text \<open>The path of the rest of the URL: fragment and query are cut off, then the parameters.\<close>

definition path_of :: "string \<Rightarrow> string \<Rightarrow> string" where
  "path_of scheme rest =
     (let no_fragment = takeWhile (\<lambda>c. c \<noteq> CHR ''#'') rest;
          no_query = takeWhile (\<lambda>c. c \<noteq> CHR ''?'') no_fragment
      in if scheme \<in> set uses_params \<and> CHR '';'' \<in> set no_query
         then splitparams no_query else no_query)"

datatype value_error = UrlparseValueError | NoProjectId

text \<open>
  \<open>urlparse(url).path\<close>. After \<open>//\<close> the network location runs to the first of
  \<open>/\<close>, \<open>?\<close>, \<open>#\<close>; a network location with one bracket and not the other raises
  \<open>ValueError("Invalid IPv6 URL")\<close>.
\<close>

definition urlparse_path :: "urllib \<Rightarrow> string \<Rightarrow> value_error + string" where
  "urlparse_path lib u =
     (let (scheme, rest) = split_scheme (clean_url u)
      in if take 2 rest = ''//''
         then (let netloc = takeWhile (\<lambda>c. \<not> netloc_delim c) (drop 2 rest);
                   rest' = dropWhile (\<lambda>c. \<not> netloc_delim c) (drop 2 rest)
               in if (CHR ''['' \<in> set netloc \<and> CHR '']'' \<notin> set netloc)
                     \<or> (CHR '']'' \<in> set netloc \<and> CHR ''['' \<notin> set netloc)
                  then Inl UrlparseValueError
                  else if CHR ''['' \<in> set netloc \<and> CHR '']'' \<in> set netloc
                          \<and> \<not> bracketed_host_ok lib netloc
                  then Inl UrlparseValueError
                  else if netloc \<noteq> [] \<and> \<not> is_ascii netloc \<and> \<not> nfkc_ok lib netloc
                  then Inl UrlparseValueError
                  else Inr (path_of scheme rest'))
         else Inr (path_of scheme rest))"

text \<open>Python's \<open>s.strip('/')\<close> and \<open>s.split('/')\<close>.\<close>

definition strip_slash :: "string \<Rightarrow> string" where
  "strip_slash s =
     rev (dropWhile (\<lambda>c. c = CHR ''/'') (rev (dropWhile (\<lambda>c. c = CHR ''/'') s)))"

fun split_slash :: "string \<Rightarrow> string list" where
  "split_slash [] = [[]]"
| "split_slash (c # cs) =
     (if c = CHR ''/'' then [] # split_slash cs
      else (case split_slash cs of
              [] \<Rightarrow> [[c]]
            | part # parts \<Rightarrow> (c # part) # parts))"

text \<open>
  \<open>extract_project_id\<close>: the first part of the stripped path; the declared
  \<open>ValueError\<close> when the list of parts is empty.
\<close>

definition extract_project_id :: "urllib \<Rightarrow> string \<Rightarrow> value_error + string" where
  "extract_project_id lib u =
     (case urlparse_path lib u of
        Inl e \<Rightarrow> Inl e
      | Inr path \<Rightarrow>
          (case split_slash (strip_slash path) of
             [] \<Rightarrow> Inl NoProjectId
           | part # _ \<Rightarrow> Inr part))"

text \<open>A library whose two version-dependent validations accept every network location.\<close>

definition lenient :: urllib where
  "lenient = \<lparr>bracketed_host_ok = (\<lambda>_. True), nfkc_ok = (\<lambda>_. True)\<rparr>"

section \<open>The project-add command\<close>

text \<open>
  \<open>project_add\<close>, up to the decision to store the project: the URL must start with
  \<open>https://tumblbug.com/\<close>, a \<open>ValueError\<close> of \<open>extract_project_id\<close> is answered
  with an error message, and so is a read without title or without funding. An
  exception of \<open>get_project_data\<close> is not caught by the command.
\<close>

definition startswith :: "string \<Rightarrow> string \<Rightarrow> bool" where
  "startswith s p = (take (length p) s = p)"

datatype add_result =
  WrongUrl | IdError | FetchFailed | ReadEscaped | ProjectAdded string project

definition project_add :: "urllib \<Rightarrow> string \<Rightarrow> scrape \<Rightarrow> add_result" where
  "project_add lib u sc =
     (if \<not> startswith u ''https://tumblbug.com/'' then WrongUrl
      else (case extract_project_id lib u of
              Inl _ \<Rightarrow> IdError
            | Inr project_id \<Rightarrow>
                (case sc of
                   ScrapeRaised \<Rightarrow> ReadEscaped
                 | ScrapeResult project_title current_funding _ \<Rightarrow>
                     if \<not> truthy_str project_title \<or> \<not> truthy current_funding
                     then FetchFailed
                     else (case project_title of
                             None \<Rightarrow> FetchFailed
                           | Some t \<Rightarrow>
                               ProjectAdded project_id
                                 \<lparr>url = Some u, title = t, initial_funding = current_funding,
                                  thresholds = []\<rparr>))))"


section \<open>Sample data\<close>

text \<open>
  A watched project with 900,000 stored as \<open>initial_funding\<close> and two thresholds, the
  same project with 3,000,000 stored, and the same project before its first read; a
  successful read of a given funding amount.
\<close>

definition sample_project :: project where
  "sample_project =
     \<lparr>url = Some ''https://tumblbug.com/sample'', title = ''sample'',
      initial_funding = Some 900000, thresholds = [2000000, 5000000]\<rparr>"

definition level_project :: project where
  "level_project = sample_project\<lparr>initial_funding := Some 3000000\<rparr>"

definition new_project :: project where
  "new_project = sample_project\<lparr>initial_funding := None\<rparr>"

definition sample_read :: "int \<Rightarrow> scrape" where
  "sample_read funding = ScrapeResult (Some ''sample'') (Some funding) None"



text \<open>A guild that watches the sample project and has three notification channels.\<close>

definition sample_config :: server_config where
  "sample_config =
     \<lparr>guild_id = 1, monitored_urls = [(''sample'', sample_project)],
      notification_channels = Some [10, 20, 30]\<rparr>"

text \<open>
  Reads of the sample project's page: one that finds a funding amount of 0, one whose
  wait for the funding element times out, and one that succeeds with a given amount.
\<close>

definition zero_page :: page where
  "zero_page =
     \<lparr>driver_get = Got (), title_element = Got ''sample'', price_element = Got 0,
      image_element = Got None, handler_raises = False\<rparr>"

definition failing_page :: page where
  "failing_page = zero_page\<lparr>price_element := TimeoutException\<rparr>"

definition good_page :: "int \<Rightarrow> page" where
  "good_page funding = zero_page\<lparr>price_element := Got funding\<rparr>"

text \<open>
  Two Discord environments in which every channel resolves: in the first the send to
  channel 20 fails with \<open>discord.HTTPException\<close>, in the second the send to channel
  10 raises an exception of another class.
\<close>

definition flaky_discord :: discord where
  "flaky_discord =
     \<lparr>lookup_raises = False, get_channel = (\<lambda>c. True),
      channel_send = (\<lambda>c. if c = 20 then HTTPException else Delivered)\<rparr>"

definition broken_discord :: discord where
  "broken_discord =
     \<lparr>lookup_raises = False, get_channel = (\<lambda>c. True),
      channel_send = (\<lambda>c. if c = 10 then OtherSendException else Delivered)\<rparr>"

text \<open>
  Two more Discord environments: one in which the send to channel 10 fails with
  \<open>discord.HTTPException\<close> and the send to channel 20 raises an exception of another
  class, and one in which the lookup of the guild's document raises.
\<close>

definition mixed_discord :: discord where
  "mixed_discord =
     \<lparr>lookup_raises = False, get_channel = (\<lambda>c. True),
      channel_send = (\<lambda>c. if c = 10 then HTTPException
                           else if c = 20 then OtherSendException else Delivered)\<rparr>"

definition lookup_down_discord :: discord where
  "lookup_down_discord = flaky_discord\<lparr>lookup_raises := True\<rparr>"

text \<open>
  A guild with two watched projects and a tick in which the read of the first one fails
  and the read of the second one finds 1,050,000; no notification or store call raises.
\<close>

definition two_projects :: server_config where
  "two_projects =
     \<lparr>guild_id = 1,
      monitored_urls = [(''failing'', sample_project), (''sample'', sample_project)],
      notification_channels = Some [10, 20, 30]\<rparr>"

definition sample_world :: world where
  "sample_world =
     \<lparr>connected = True,
      pages = (\<lambda>g project_id. if project_id = ''failing'' then failing_page
                                else good_page 1050000),
      raises = (\<lambda>g project_id eff. False)\<rparr>"

text \<open>
  The entry that the store holds under the key \<open>a\<close> once the project-add command has
  written a project with the identifier \<open>a.b\<close>: a dictionary without \<open>url\<close> (and
  without the other three keys; the price check reads none of them in front of
  \<open>data['url']\<close>). A guild in which that entry stands between the two watched
  projects, and a second guild that watches the sample project.
\<close>

definition nested_entry :: project where
  "nested_entry = \<lparr>url = None, title = [], initial_funding = None, thresholds = []\<rparr>"

definition nested_config :: server_config where
  "nested_config =
     \<lparr>guild_id = 1,
      monitored_urls = [(''failing'', sample_project), (''a'', nested_entry),
                        (''sample'', sample_project)],
      notification_channels = Some [10, 20, 30]\<rparr>"

definition second_guild :: server_config where
  "second_guild = sample_config\<lparr>guild_id := 2\<rparr>"

section \<open>Properties of the threshold loop\<close>

lemma thresholds_loop_removed:
  "snd (thresholds_loop c ts) = filter (\<lambda>t. c \<ge> t) ts"
  by (induction ts) (auto split: prod.splits)

lemma thresholds_loop_sent:
  "fst (thresholds_loop c ts) = map (\<lambda>t. Notify (ThresholdEvent t)) (filter (\<lambda>t. c \<ge> t) ts)"
  by (induction ts) (auto split: prod.splits)

lemma remaining_filter:
  "filter (\<lambda>t. t \<notin> set (filter (\<lambda>t. c \<ge> t) ts)) ts = filter (\<lambda>t. \<not> c \<ge> t) ts"
  by (rule filter_cong) auto

lemma check_custom_thresholds_eq:
  "check_custom_thresholds c data =
     (let crossed = filter (\<lambda>t. c \<ge> t) (thresholds data)
      in map (\<lambda>t. Notify (ThresholdEvent t)) crossed
         @ (if crossed \<noteq> [] then [SetThresholds (filter (\<lambda>t. \<not> c \<ge> t) (thresholds data))]
            else []))"
proof -
  obtain sent removed where lp: "thresholds_loop c (thresholds data) = (sent, removed)"
    by (cases "thresholds_loop c (thresholds data)")
  have r: "removed = filter (\<lambda>t. c \<ge> t) (thresholds data)"
    using thresholds_loop_removed [of c "thresholds data"] lp by simp
  have s: "sent = map (\<lambda>t. Notify (ThresholdEvent t)) (filter (\<lambda>t. c \<ge> t) (thresholds data))"
    using thresholds_loop_sent [of c "thresholds data"] lp by simp
  have rem: "filter (\<lambda>t. t \<notin> set removed) (thresholds data)
               = filter (\<lambda>t. \<not> c \<ge> t) (thresholds data)"
    unfolding r by (rule remaining_filter)
  have e: "(removed = []) = (filter (\<lambda>t. c \<ge> t) (thresholds data) = [])"
    using r by simp
  show ?thesis
    unfolding check_custom_thresholds_def lp
    by (simp add: rem s e Let_def)
qed

lemma milestones_append: "milestones (xs @ ys) = milestones xs @ milestones ys"
  by (induction xs rule: milestones.induct) auto

lemma threshold_events_append:
  "threshold_events (xs @ ys) = threshold_events xs @ threshold_events ys"
  by (induction xs rule: threshold_events.induct) auto

lemma persist_append: "persist (xs @ ys) data = persist ys (persist xs data)"
  by (induction xs arbitrary: data) auto

lemma milestones_notify_thresholds:
  "milestones (map (\<lambda>t. Notify (ThresholdEvent t)) ts) = []"
  by (induction ts) auto

lemma threshold_events_notify_thresholds:
  "threshold_events (map (\<lambda>t. Notify (ThresholdEvent t)) ts) = ts"
  by (induction ts) auto

lemma persist_notify_thresholds:
  "persist (map (\<lambda>t. Notify (ThresholdEvent t)) ts) data = data"
  by (induction ts) auto

lemma milestones_check_custom_thresholds:
  "milestones (check_custom_thresholds c data) = []"
  by (simp add: check_custom_thresholds_eq Let_def milestones_append
      milestones_notify_thresholds)

lemma threshold_events_check_custom_thresholds:
  "threshold_events (check_custom_thresholds c data) = filter (\<lambda>t. c \<ge> t) (thresholds data)"
  by (simp add: check_custom_thresholds_eq Let_def threshold_events_append
      threshold_events_notify_thresholds)

lemma persist_check_custom_thresholds:
  assumes "thresholds d = thresholds data"
  shows "persist (check_custom_thresholds c data) d
           = d\<lparr>thresholds := filter (\<lambda>t. \<not> c \<ge> t) (thresholds data)\<rparr>"
proof (cases "filter (\<lambda>t. c \<ge> t) (thresholds data) = []")
  case True
  then have "\<forall>t \<in> set (thresholds data). \<not> c \<ge> t"
    by (simp add: filter_empty_conv)
  then have "filter (\<lambda>t. \<not> c \<ge> t) (thresholds data) = thresholds d"
    using assms by (simp add: filter_id_conv)
  with True show ?thesis
    by (simp add: check_custom_thresholds_eq Let_def)
next
  case False
  then show ?thesis
    by (simp add: check_custom_thresholds_eq Let_def persist_append
        persist_notify_thresholds)
qed

lemma next_million_above: "(p div 1000000) * 1000000 + 1000000 > (p::int)"
proof -
  have "p = (p div 1000000) * 1000000 + p mod 1000000" by simp
  moreover have "p mod 1000000 < 1000000" by simp
  ultimately show ?thesis by linarith
qed

lemma check_project_running:
  assumes "initial_funding data = Some previous" "previous \<noteq> 0" "current \<noteq> 0"
    "previous < current"
  shows "check_project (ScrapeResult t (Some current) img) data =
           Inr ((if current \<ge> (previous div 1000000) * 1000000 + 1000000
                 then [Notify (MilestoneEvent ((previous div 1000000) * 1000000 + 1000000)),
                       SetInitialFunding ((previous div 1000000) * 1000000 + 1000000)]
                 else [])
                @ check_custom_thresholds current data)"
  using assms next_million_above [of previous]
  by (simp add: check_project_def Let_def)

lemma check_project_first_read:
  assumes "\<not> truthy (initial_funding data)" "current \<noteq> 0"
  shows "check_project (ScrapeResult t (Some current) img) data =
           Inr [SetInitialFunding current, Notify (MonitoringStarted current)]"
  using assms by (simp add: check_project_def)

lemma check_project_not_increased:
  assumes "initial_funding data = Some previous" "previous \<noteq> 0" "current \<le> previous"
  shows "check_project (ScrapeResult t (Some current) img) data = Inr []"
  using assms by (simp add: check_project_def)

lemma check_project_no_funding:
  assumes "\<not> truthy funding"
  shows "check_project (ScrapeResult t funding img) data = Inr []"
  using assms by (cases funding) (simp_all add: check_project_def)

lemma initial_after_thresholds:
  "initial_funding (persist (check_custom_thresholds c data) (data\<lparr>initial_funding := v\<rparr>)) = v"
proof -
  have "thresholds (data\<lparr>initial_funding := v\<rparr>) = thresholds data" by simp
  from persist_check_custom_thresholds [OF this] show ?thesis by simp
qed

section \<open>The periodic milestone\<close>

text \<open>
  Claim C1. When the stored \<open>initial_funding\<close> is below the current funding, one cycle
  announces at most one milestone; an announced milestone is \<open>initial_funding\<close> rounded
  down to a multiple of 1,000,000 plus 1,000,000, and \<open>initial_funding\<close> is then stored
  as that amount. With 900,000 stored and 1,050,000 read, the milestone 1,000,000 is
  announced and stored.
\<close>

theorem milestone_at_most_one:
  assumes "initial_funding data = Some previous" and "previous < current"
  shows "let effs = effects_of (check_project (ScrapeResult t (Some current) img) data);
             next_1m = (previous div 1000000) * 1000000 + 1000000
         in length (milestones effs) \<le> 1
            \<and> (\<forall>m \<in> set (milestones effs).
                  m = next_1m \<and> initial_funding (persist effs data) = Some next_1m)
            \<and> (previous = 900000 \<and> current = 1050000 \<longrightarrow>
                  milestones effs = [1000000]
                  \<and> initial_funding (persist effs data) = Some 1000000)"
proof (cases "previous = 0 \<or> current = 0")
  case True
  then show ?thesis
  proof
    assume "previous = 0"
    then show ?thesis
      using assms check_project_first_read [of data current t img]
      by (simp add: effects_of_def Let_def)
  next
    assume "current = 0"
    then show ?thesis
      using assms check_project_no_funding [of "Some current" t img data]
      by (simp add: effects_of_def Let_def)
  qed
next
  case False
  then have nz: "previous \<noteq> 0" "current \<noteq> 0" by simp_all
  show ?thesis
    using check_project_running [OF assms(1) nz assms(2), of t img]
    by (simp add: effects_of_def Let_def milestones_append
        milestones_check_custom_thresholds persist_append initial_after_thresholds)
qed

theorem milestone_at_most_one_witness:
  "milestones (effects_of (check_project (sample_read 1050000) sample_project)) = [1000000]
   \<and> initial_funding
         (persist (effects_of (check_project (sample_read 1050000) sample_project))
                  sample_project) = Some 1000000"
proof -
  have h1: "initial_funding sample_project = Some 900000"
    by (simp add: sample_project_def)
  have h2: "(900000::int) < 1050000" by simp
  have "900000 = (900000::int) \<and> 1050000 = (1050000::int)" by simp
  with milestone_at_most_one [OF h1 h2, of "Some ''sample''" None] show ?thesis
    unfolding Let_def sample_read_def by blast
qed

section \<open>Custom thresholds\<close>

lemma running_threshold_events:
  assumes "initial_funding data = Some previous" "previous \<noteq> 0" "current \<noteq> 0"
    "previous < current"
  shows "threshold_events (effects_of (check_project (ScrapeResult t (Some current) img) data))
           = filter (\<lambda>t. current \<ge> t) (thresholds data)"
  using check_project_running [OF assms, of t img]
  by (simp add: effects_of_def threshold_events_append
      threshold_events_check_custom_thresholds)

lemma thresholds_after_thresholds:
  "thresholds (persist (check_custom_thresholds c data) (data\<lparr>initial_funding := v\<rparr>))
     = filter (\<lambda>t. \<not> c \<ge> t) (thresholds data)"
proof -
  have "thresholds (data\<lparr>initial_funding := v\<rparr>) = thresholds data" by simp
  from persist_check_custom_thresholds [OF this] show ?thesis by simp
qed

lemma running_remaining:
  assumes "initial_funding data = Some previous" "previous \<noteq> 0" "current \<noteq> 0"
    "previous < current"
  shows "thresholds (persist (effects_of (check_project (ScrapeResult t (Some current) img) data))
                             data)
           = filter (\<lambda>t. \<not> current \<ge> t) (thresholds data)"
proof -
  have same: "thresholds data = thresholds data" by simp
  show ?thesis
    using check_project_running [OF assms, of t img]
    by (simp add: effects_of_def persist_append thresholds_after_thresholds
        persist_check_custom_thresholds [OF same])
qed

lemma running_initial:
  assumes "initial_funding data = Some previous" "previous \<noteq> 0" "current \<noteq> 0"
    "previous < current"
  shows "initial_funding
           (persist (effects_of (check_project (ScrapeResult t (Some current) img) data)) data)
           = Some (if current \<ge> (previous div 1000000) * 1000000 + 1000000
                   then (previous div 1000000) * 1000000 + 1000000 else previous)"
proof -
  have same: "thresholds data = thresholds data" by simp
  show ?thesis
    using check_project_running [OF assms, of t img] assms(1)
    by (simp add: effects_of_def persist_append initial_after_thresholds
        persist_check_custom_thresholds [OF same])
qed

lemma running_milestones:
  assumes "initial_funding data = Some previous" "previous \<noteq> 0" "current \<noteq> 0"
    "previous < current"
  shows "milestones (effects_of (check_project (ScrapeResult t (Some current) img) data))
           = (if current \<ge> (previous div 1000000) * 1000000 + 1000000
              then [(previous div 1000000) * 1000000 + 1000000] else [])"
  using check_project_running [OF assms, of t img]
  by (simp add: effects_of_def milestones_append milestones_check_custom_thresholds)

text \<open>
  With 3,000,000 stored as \<open>initial_funding\<close> and 3,000,000 read, the threshold
  2,000,000 has been reached, yet it is neither announced nor removed: the call of
  \<open>check_custom_thresholds\<close> stands inside \<open>if current_funding > data['initial_funding']\<close>.
\<close>

theorem threshold_needs_increase_counterexample:
  "2000000 \<in> set (thresholds level_project)
   \<and> (3000000::int) \<ge> 2000000
   \<and> threshold_events (effects_of (check_project (sample_read 3000000) level_project)) = []
   \<and> 2000000 \<in> set (thresholds
         (persist (effects_of (check_project (sample_read 3000000) level_project))
                  level_project))"
  by (simp add: level_project_def sample_project_def sample_read_def check_project_def
      effects_of_def)

text \<open>
  Claim C2, as the code has it. For a project whose \<open>initial_funding\<close> is set and a
  non-zero funding sample: when the sample is above \<open>initial_funding\<close>, every threshold
  that the sample has reached is announced and removed from the stored list, whether or
  not a milestone is announced in the same cycle; when the sample is not above
  \<open>initial_funding\<close>, no threshold is announced and the list stays as it is.
\<close>

theorem thresholds_fire_on_increase:
  assumes "initial_funding data = Some previous" and "previous \<noteq> 0" and "current \<noteq> 0"
  shows "let effs = effects_of (check_project (ScrapeResult t (Some current) img) data)
         in (previous < current \<longrightarrow>
               (\<forall>th \<in> set (thresholds data). current \<ge> th \<longrightarrow>
                   th \<in> set (threshold_events effs)
                   \<and> th \<notin> set (thresholds (persist effs data))))
            \<and> (current \<le> previous \<longrightarrow>
                  threshold_events effs = []
                  \<and> thresholds (persist effs data) = thresholds data)"
proof (cases "previous < current")
  case True
  then show ?thesis
    using running_threshold_events [OF assms True, of t img]
      running_remaining [OF assms True, of t img]
    by (simp add: Let_def)
next
  case False
  then have "current \<le> previous" by simp
  from check_project_not_increased [OF assms(1,2) this, of t img] False
  show ?thesis by (simp add: Let_def effects_of_def)
qed

theorem thresholds_fire_on_increase_witness:
  "2000000 \<in> set (threshold_events
       (effects_of (check_project (sample_read 3000000) sample_project)))
   \<and> 2000000 \<notin> set (thresholds
       (persist (effects_of (check_project (sample_read 3000000) sample_project))
                sample_project))
   \<and> threshold_events (effects_of (check_project (sample_read 800000) sample_project)) = []"
proof -
  have h1: "initial_funding sample_project = Some 900000"
    by (simp add: sample_project_def)
  have h2: "(900000::int) \<noteq> 0" "(3000000::int) \<noteq> 0" "(800000::int) \<noteq> 0" by simp_all
  have m: "2000000 \<in> set (thresholds sample_project)" by (simp add: sample_project_def)
  have a: "(900000::int) < 3000000" "(3000000::int) \<ge> 2000000" "(800000::int) \<le> 900000"
    by simp_all
  from thresholds_fire_on_increase [OF h1 h2(1) h2(2), of "Some ''sample''" None] m a
  have "2000000 \<in> set (threshold_events
       (effects_of (check_project (sample_read 3000000) sample_project)))
   \<and> 2000000 \<notin> set (thresholds
       (persist (effects_of (check_project (sample_read 3000000) sample_project))
                sample_project))"
    unfolding Let_def sample_read_def by blast
  moreover from thresholds_fire_on_increase [OF h1 h2(1) h2(3), of "Some ''sample''" None] a
  have "threshold_events (effects_of (check_project (sample_read 800000) sample_project)) = []"
    unfolding Let_def sample_read_def by blast
  ultimately show ?thesis by blast
qed

section \<open>The first read\<close>

text \<open>
  Claim C10. When \<open>initial_funding\<close> is unset, a cycle with a successful read stores the
  current funding as \<open>initial_funding\<close>, sends the monitoring-started notification and
  does nothing else: no threshold is announced or removed, whatever the thresholds are.
\<close>

theorem first_read_only_starts:
  assumes "\<not> truthy (initial_funding data)" and "current \<noteq> 0"
  shows "let effs = effects_of (check_project (ScrapeResult t (Some current) img) data)
         in effs = [SetInitialFunding current, Notify (MonitoringStarted current)]
            \<and> threshold_events effs = []
            \<and> milestones effs = []
            \<and> thresholds (persist effs data) = thresholds data
            \<and> initial_funding (persist effs data) = Some current"
  using check_project_first_read [OF assms, of t img]
  by (simp add: effects_of_def Let_def)

theorem first_read_only_starts_witness:
  "effects_of (check_project (sample_read 3000000) new_project)
     = [SetInitialFunding 3000000, Notify (MonitoringStarted 3000000)]
   \<and> thresholds (persist (effects_of (check_project (sample_read 3000000) new_project))
                          new_project) = [2000000, 5000000]"
proof -
  have h1: "\<not> truthy (initial_funding new_project)"
    by (simp add: new_project_def sample_project_def)
  have h2: "(3000000::int) \<noteq> 0" by simp
  have th: "thresholds new_project = [2000000, 5000000]"
    by (simp add: new_project_def sample_project_def)
  from first_read_only_starts [OF h1 h2, of "Some ''sample''" None] th show ?thesis
    unfolding Let_def sample_read_def by simp
qed

section \<open>The threshold list stays sorted\<close>

lemma check_project_thresholds_cases:
  "(threshold_events (effects_of (check_project sc data)) = []
      \<and> thresholds (persist (effects_of (check_project sc data)) data) = thresholds data)
   \<or> (\<exists>c. threshold_events (effects_of (check_project sc data))
                = filter (\<lambda>t. c \<ge> t) (thresholds data)
            \<and> thresholds (persist (effects_of (check_project sc data)) data)
                = filter (\<lambda>t. \<not> c \<ge> t) (thresholds data))"
proof (cases sc)
  case ScrapeRaised
  then show ?thesis by (simp add: check_project_def effects_of_def)
next
  case (ScrapeResult t funding img)
  show ?thesis
  proof (cases "truthy funding")
    case False
    from check_project_no_funding [OF this, of t img data] ScrapeResult
    show ?thesis by (simp add: effects_of_def)
  next
    case True
    then obtain current where f: "funding = Some current" and c0: "current \<noteq> 0"
      by (cases funding) auto
    show ?thesis
    proof (cases "truthy (initial_funding data)")
      case False
      from check_project_first_read [OF this c0, of t img] ScrapeResult f
      show ?thesis by (simp add: effects_of_def)
    next
      case True
      then obtain previous where p: "initial_funding data = Some previous"
        and p0: "previous \<noteq> 0"
        by (cases "initial_funding data") auto
      show ?thesis
      proof (cases "previous < current")
        case True
        from running_threshold_events [OF p p0 c0 True, of t img]
          running_remaining [OF p p0 c0 True, of t img] ScrapeResult f
        show ?thesis by auto
      next
        case False
        then have "current \<le> previous" by simp
        from check_project_not_increased [OF p p0 this, of t img] ScrapeResult f
        show ?thesis by (simp add: effects_of_def)
      qed
    qed
  qed
qed

lemma filter_keeps_invariant:
  assumes "sorted (ths :: int list)" "distinct ths"
  shows "sorted (filter P ths) \<and> distinct (filter P ths)"
  using assms by (simp add: sorted_wrt_filter)

text \<open>
  Claim C3. When the threshold list of a project is sorted ascending and free of
  duplicates, it is still so after a cycle of the price check, after
  \<open>check_custom_thresholds\<close> alone (as the test command calls it) and after the
  threshold-add command; and no threshold that a cycle announced is left in the list.
\<close>

theorem thresholds_stay_sorted_distinct:
  assumes "sorted (thresholds data)" and "distinct (thresholds data)"
  shows "(let effs = effects_of (check_project sc data); data' = persist effs data
          in sorted (thresholds data') \<and> distinct (thresholds data')
             \<and> (\<forall>th \<in> set (threshold_events effs). th \<notin> set (thresholds data')))
         \<and> (let effs = check_custom_thresholds c data; data' = persist effs data
            in sorted (thresholds data') \<and> distinct (thresholds data')
               \<and> (\<forall>th \<in> set (threshold_events effs). th \<notin> set (thresholds data')))
         \<and> (\<forall>cfg project_id project_id' ths'.
               find (\<lambda>(project_id, d). title d = project_title) (monitored_urls cfg)
                 = Some (project_id', data)
               \<and> threshold_add (Some cfg) project_title amount = Some (project_id, ths')
               \<longrightarrow> sorted ths' \<and> distinct ths'
                   \<and> set ths' = insert amount (set (thresholds data)))"
proof (intro conjI)
  show "let effs = effects_of (check_project sc data); data' = persist effs data
        in sorted (thresholds data') \<and> distinct (thresholds data')
           \<and> (\<forall>th \<in> set (threshold_events effs). th \<notin> set (thresholds data'))"
    using check_project_thresholds_cases [of sc data] assms filter_keeps_invariant [OF assms]
    by (auto simp: Let_def)
next
  have same: "thresholds data = thresholds data" by simp
  show "let effs = check_custom_thresholds c data; data' = persist effs data
        in sorted (thresholds data') \<and> distinct (thresholds data')
           \<and> (\<forall>th \<in> set (threshold_events effs). th \<notin> set (thresholds data'))"
    using filter_keeps_invariant [OF assms]
    by (simp add: Let_def persist_check_custom_thresholds [OF same]
        threshold_events_check_custom_thresholds)
next
  show "\<forall>cfg project_id project_id' ths'.
          find (\<lambda>(project_id, d). title d = project_title) (monitored_urls cfg)
            = Some (project_id', data)
          \<and> threshold_add (Some cfg) project_title amount = Some (project_id, ths')
          \<longrightarrow> sorted ths' \<and> distinct ths'
              \<and> set ths' = insert amount (set (thresholds data))"
    using assms by (auto simp: threshold_add_def split: if_splits)
qed

theorem thresholds_stay_sorted_distinct_witness:
  "thresholds (persist (effects_of (check_project (sample_read 3000000) sample_project))
                       sample_project) = [5000000]
   \<and> threshold_events (effects_of (check_project (sample_read 3000000) sample_project))
       = [2000000]
   \<and> threshold_add (Some sample_config) ''sample'' 3000000
       = Some (''sample'', [2000000, 3000000, 5000000])
   \<and> sorted [2000000, 3000000, 5000000 :: int] \<and> distinct [2000000, 3000000, 5000000 :: int]"
proof -
  have h1: "sorted (thresholds sample_project)" "distinct (thresholds sample_project)"
    by (simp_all add: sample_project_def)
  have f: "find (\<lambda>(project_id, d). title d = ''sample'') (monitored_urls sample_config)
             = Some (''sample'', sample_project)"
    by (simp add: sample_config_def sample_project_def)
  have a: "threshold_add (Some sample_config) ''sample'' 3000000
             = Some (''sample'', [2000000, 3000000, 5000000])"
    by (simp add: threshold_add_def sample_config_def sample_project_def)
  have r: "thresholds (persist (effects_of (check_project (sample_read 3000000) sample_project))
                       sample_project) = [5000000]
           \<and> threshold_events (effects_of (check_project (sample_read 3000000) sample_project))
               = [2000000]"
    by (simp add: sample_read_def sample_project_def check_project_def
        check_custom_thresholds_def effects_of_def Let_def)
  from thresholds_stay_sorted_distinct
    [OF h1, of "sample_read 3000000" 3000000 "''sample''" 3000000] f a
  have "sorted [2000000, 3000000, 5000000 :: int] \<and> distinct [2000000, 3000000, 5000000 :: int]"
    by blast
  with a r show ?thesis by blast
qed

section \<open>Running the cycle again\<close>

lemma filter_crossed_of_remaining:
  "filter (\<lambda>t. c \<ge> t) (filter (\<lambda>t. \<not> c \<ge> t) (ths :: int list)) = []"
  by (induction ths) auto

lemma million_of_next: "(((p::int) div 1000000) * 1000000 + 1000000) div 1000000 * 1000000
                          = (p div 1000000) * 1000000 + 1000000"
  by simp

lemma million_below: "((p::int) div 1000000) * 1000000 \<le> p"
proof -
  have "p = (p div 1000000) * 1000000 + p mod 1000000" by simp
  moreover have "0 \<le> p mod 1000000" by simp
  ultimately show ?thesis by linarith
qed

text \<open>
  With 900,000 stored and 3,500,000 read, the first cycle announces the milestone
  1,000,000 and stores it; the second cycle, on the same funding, announces 2,000,000.
\<close>

theorem second_run_milestone_counterexample:
  "milestones (effects_of (check_project (sample_read 3500000) sample_project)) = [1000000]
   \<and> milestones (effects_of (check_project (sample_read 3500000)
        (persist (effects_of (check_project (sample_read 3500000) sample_project))
                 sample_project))) = [2000000]"
  by (simp add: sample_read_def sample_project_def check_project_def
      check_custom_thresholds_def effects_of_def Let_def)

lemma no_milestone_when_unset:
  assumes "\<not> truthy (initial_funding data) \<or> \<not> truthy funding"
  shows "milestones (effects_of (check_project (ScrapeResult t funding img) data)) = []"
proof (cases "truthy funding")
  case False
  from check_project_no_funding [OF this, of t img data]
  show ?thesis by (simp add: effects_of_def)
next
  case True
  then obtain current where f: "funding = Some current" and c0: "current \<noteq> 0"
    by (cases funding) auto
  from True assms have "\<not> truthy (initial_funding data)" by simp
  from check_project_first_read [OF this c0, of t img] f
  show ?thesis by (simp add: effects_of_def)
qed

text \<open>
  With -500,000 stored and 3,500,000 read, the first cycle announces the milestone 0 and
  stores 0; the second cycle reads the stored 0 as unset, stores the funding and sends
  the monitoring-started message, and announces no milestone.
\<close>

lemma second_run_after_zero:
  "effects_of (check_project (sample_read 3500000)
       (sample_project\<lparr>initial_funding := Some (- 500000)\<rparr>))
     = [Notify (MilestoneEvent 0), SetInitialFunding 0,
        Notify (ThresholdEvent 2000000), SetThresholds [5000000]]
   \<and> effects_of (check_project (sample_read 3500000)
        (persist (effects_of (check_project (sample_read 3500000)
                    (sample_project\<lparr>initial_funding := Some (- 500000)\<rparr>)))
                 (sample_project\<lparr>initial_funding := Some (- 500000)\<rparr>)))
     = [SetInitialFunding 3500000, Notify (MonitoringStarted 3500000)]"
  by (simp add: sample_read_def sample_project_def check_project_def
      check_custom_thresholds_def effects_of_def Let_def)

lemma second_run_cases:
  "let sc = ScrapeResult t (Some current) img;
       data1 = persist (effects_of (check_project sc data)) data;
       effs2 = effects_of (check_project sc data1)
   in threshold_events effs2 = []
      \<and> (initial_funding data1 = None \<longrightarrow> milestones effs2 = [])
      \<and> (\<forall>n. initial_funding data1 = Some n \<longrightarrow>
            (current < n + 1000000 \<longrightarrow> milestones effs2 = [])
            \<and> (n \<noteq> 0 \<and> current \<noteq> 0 \<and> n + 1000000 \<le> current \<longrightarrow>
                 milestones effs2 = [n + 1000000]))"
proof (cases "current = 0")
  case True
  then have "\<not> truthy (Some current)" by simp
  from check_project_no_funding [OF this, of t img] True
  show ?thesis by (simp add: Let_def effects_of_def)
next
  case c0: False
  show ?thesis
  proof (cases "truthy (initial_funding data)")
    case False
    have d1: "persist (effects_of (check_project (ScrapeResult t (Some current) img) data)) data
                = data\<lparr>initial_funding := Some current\<rparr>"
      using check_project_first_read [OF False c0, of t img] by (simp add: effects_of_def)
    have i1: "initial_funding (data\<lparr>initial_funding := Some current\<rparr>) = Some current"
      by simp
    have "current \<le> current" by simp
    from check_project_not_increased [OF i1 c0 this, of t img]
    have e2: "effects_of (check_project (ScrapeResult t (Some current) img)
                (data\<lparr>initial_funding := Some current\<rparr>)) = []"
      by (simp add: effects_of_def)
    show ?thesis unfolding Let_def d1 e2 by simp
  next
    case True
    then obtain previous where p: "initial_funding data = Some previous"
      and p0: "previous \<noteq> 0"
      by (cases "initial_funding data") auto
    show ?thesis
    proof (cases "previous < current")
      case False
      then have le: "current \<le> previous" by simp
      from check_project_not_increased [OF p p0 le, of t img] p le
      show ?thesis by (simp add: Let_def effects_of_def)
    next
      case inc: True
      let ?sc = "ScrapeResult t (Some current) img"
      let ?next = "(previous div 1000000) * 1000000 + 1000000"
      let ?d1 = "persist (effects_of (check_project ?sc data)) data"
      have th1: "thresholds ?d1 = filter (\<lambda>t. \<not> current \<ge> t) (thresholds data)"
        by (rule running_remaining [OF p p0 c0 inc])
      have in1: "initial_funding ?d1 = Some (if current \<ge> ?next then ?next else previous)"
        by (rule running_initial [OF p p0 c0 inc])
      show ?thesis
      proof (cases "current \<ge> ?next")
        case False
        then have i: "initial_funding ?d1 = Some previous" using in1 by simp
        have te: "threshold_events (effects_of (check_project ?sc ?d1)) = []"
          using running_threshold_events [OF i p0 c0 inc, of t img] th1
          by (simp add: filter_crossed_of_remaining)
        have ms: "milestones (effects_of (check_project ?sc ?d1)) = []"
          using running_milestones [OF i p0 c0 inc, of t img] False by simp
        have "\<not> previous + 1000000 \<le> current"
          using False million_below [of previous] by linarith
        with te ms i show ?thesis by (simp add: Let_def)
      next
        case True
        then have i: "initial_funding ?d1 = Some ?next" using in1 by simp
        show ?thesis
        proof (cases "?next = 0")
          case z: True
          from i z have "\<not> truthy (initial_funding ?d1)" by simp
          from check_project_first_read [OF this c0, of t img]
          have e2: "effects_of (check_project ?sc ?d1)
                      = [SetInitialFunding current, Notify (MonitoringStarted current)]"
            by (simp add: effects_of_def)
          show ?thesis unfolding Let_def e2 using i z by simp
        next
          case n0: False
          show ?thesis
          proof (cases "?next < current")
            case False
            then have "current \<le> ?next" by simp
            from check_project_not_increased [OF i n0 this, of t img]
            have e2: "effects_of (check_project ?sc ?d1) = []"
              by (simp add: effects_of_def)
            show ?thesis unfolding Let_def e2 using i False by simp
          next
            case lt: True
            have te: "threshold_events (effects_of (check_project ?sc ?d1)) = []"
              using running_threshold_events [OF i n0 c0 lt, of t img] th1
              by (simp add: filter_crossed_of_remaining)
            have ms: "milestones (effects_of (check_project ?sc ?d1))
                        = (if current \<ge> ?next + 1000000 then [?next + 1000000] else [])"
              using running_milestones [OF i n0 c0 lt, of t img]
              by (simp only: million_of_next)
            from te ms i show ?thesis by (simp add: Let_def)
          qed
        qed
      qed
    qed
  qed
qed

text \<open>
  Claim C4, as the code has it. A second cycle on the stored result of a first cycle, with
  the same funding sample, announces no threshold. It announces a milestone exactly when
  the stored \<open>initial_funding\<close> and the funding are both non-zero and the funding is at
  least the stored \<open>initial_funding\<close> plus 1,000,000 (the funding has passed more than
  one milestone at once), and then exactly the one milestone at the stored
  \<open>initial_funding\<close> plus 1,000,000: one milestone per cycle. In every other case it
  announces none: when the funding is below the stored \<open>initial_funding\<close> plus
  1,000,000, when the funding is 0, and when the stored \<open>initial_funding\<close> is unset or 0
  (a stored 0 is read as unset, and the cycle is a first read).
\<close>

theorem second_run_events:
  "let sc = ScrapeResult t (Some current) img;
       data1 = persist (effects_of (check_project sc data)) data;
       effs2 = effects_of (check_project sc data1)
   in threshold_events effs2 = []
      \<and> (initial_funding data1 = None \<longrightarrow> milestones effs2 = [])
      \<and> (\<forall>n. initial_funding data1 = Some n \<longrightarrow>
            milestones effs2
              = (if n \<noteq> 0 \<and> current \<noteq> 0 \<and> n + 1000000 \<le> current
                 then [n + 1000000] else []))"
proof -
  let ?sc = "ScrapeResult t (Some current) img"
  let ?d1 = "persist (effects_of (check_project ?sc data)) data"
  let ?e2 = "effects_of (check_project ?sc ?d1)"
  from second_run_cases [of t current img data]
  have te: "threshold_events ?e2 = []"
    and un: "initial_funding ?d1 = None \<longrightarrow> milestones ?e2 = []"
    and below: "\<And>n. initial_funding ?d1 = Some n \<Longrightarrow> current < n + 1000000
                  \<Longrightarrow> milestones ?e2 = []"
    and above: "\<And>n. initial_funding ?d1 = Some n \<Longrightarrow> n \<noteq> 0 \<Longrightarrow> current \<noteq> 0
                  \<Longrightarrow> n + 1000000 \<le> current \<Longrightarrow> milestones ?e2 = [n + 1000000]"
    unfolding Let_def by blast+
  have "milestones ?e2
          = (if n \<noteq> 0 \<and> current \<noteq> 0 \<and> n + 1000000 \<le> current then [n + 1000000] else [])"
    if i: "initial_funding ?d1 = Some n" for n
  proof (cases "n \<noteq> 0 \<and> current \<noteq> 0")
    case True
    show ?thesis
    proof (cases "n + 1000000 \<le> current")
      case True
      with above [OF i] \<open>n \<noteq> 0 \<and> current \<noteq> 0\<close> show ?thesis by simp
    next
      case False
      then have "current < n + 1000000" by simp
      from below [OF i this] False show ?thesis by simp
    qed
  next
    case False
    then have "\<not> truthy (initial_funding ?d1) \<or> \<not> truthy (Some current)"
      using i by auto
    from no_milestone_when_unset [OF this, of t img] False show ?thesis by auto
  qed
  with te un show ?thesis unfolding Let_def by blast
qed

theorem second_run_events_witness:
  "threshold_events (effects_of (check_project (sample_read 1050000)
       (persist (effects_of (check_project (sample_read 1050000) sample_project))
                sample_project))) = []
   \<and> milestones (effects_of (check_project (sample_read 1050000)
       (persist (effects_of (check_project (sample_read 1050000) sample_project))
                sample_project))) = []
   \<and> threshold_events (effects_of (check_project (sample_read 3500000)
       (persist (effects_of (check_project (sample_read 3500000) sample_project))
                sample_project))) = []
   \<and> milestones (effects_of (check_project (sample_read 3500000)
       (persist (effects_of (check_project (sample_read 3500000) sample_project))
                sample_project))) = [1000000 + 1000000]"
proof -
  have i: "initial_funding
             (persist (effects_of (check_project (sample_read 1050000) sample_project))
                      sample_project) = Some 1000000"
    by (simp add: sample_read_def sample_project_def check_project_def
        check_custom_thresholds_def effects_of_def Let_def)
  have j: "initial_funding
             (persist (effects_of (check_project (sample_read 3500000) sample_project))
                      sample_project) = Some 1000000"
    by (simp add: sample_read_def sample_project_def check_project_def
        check_custom_thresholds_def effects_of_def Let_def)
  have b: "\<not> ((1000000::int) \<noteq> 0 \<and> (1050000::int) \<noteq> 0 \<and> (1000000::int) + 1000000 \<le> 1050000)"
    by simp
  have c: "(1000000::int) \<noteq> 0 \<and> (3500000::int) \<noteq> 0 \<and> (1000000::int) + 1000000 \<le> 3500000"
    by simp
  from second_run_events [of "Some ''sample''" 1050000 None sample_project] i
  have one: "threshold_events (effects_of (check_project (sample_read 1050000)
       (persist (effects_of (check_project (sample_read 1050000) sample_project))
                sample_project))) = []
   \<and> milestones (effects_of (check_project (sample_read 1050000)
       (persist (effects_of (check_project (sample_read 1050000) sample_project))
                sample_project)))
      = (if (1000000::int) \<noteq> 0 \<and> (1050000::int) \<noteq> 0 \<and> (1000000::int) + 1000000 \<le> 1050000
         then [1000000 + 1000000] else [])"
    unfolding Let_def sample_read_def by blast
  from second_run_events [of "Some ''sample''" 3500000 None sample_project] j
  have two: "threshold_events (effects_of (check_project (sample_read 3500000)
       (persist (effects_of (check_project (sample_read 3500000) sample_project))
                sample_project))) = []
   \<and> milestones (effects_of (check_project (sample_read 3500000)
       (persist (effects_of (check_project (sample_read 3500000) sample_project))
                sample_project)))
      = (if (1000000::int) \<noteq> 0 \<and> (3500000::int) \<noteq> 0 \<and> (1000000::int) + 1000000 \<le> 3500000
         then [1000000 + 1000000] else [])"
    unfolding Let_def sample_read_def by blast
  from one two show ?thesis
    unfolding if_not_P [OF b] if_P [OF c] by blast
qed

section \<open>Extracting the project identifier\<close>

lemma split_slash_not_empty: "split_slash s \<noteq> []"
  by (induction s) (auto split: list.splits)

lemma extract_project_id_of_path:
  assumes "urlparse_path lib u = Inr path"
  shows "\<exists>part. extract_project_id lib u = Inr part"
  using assms split_slash_not_empty [of "strip_slash path"]
  by (cases "split_slash (strip_slash path)") (simp_all add: extract_project_id_def)

lemma never_no_project_id: "extract_project_id lib u \<noteq> Inl NoProjectId"
proof (cases "urlparse_path lib u")
  case (Inl e)
  then have "e = UrlparseValueError"
    by (auto simp: urlparse_path_def Let_def split: prod.splits if_splits)
  with Inl show ?thesis by (simp add: extract_project_id_def)
next
  case (Inr path)
  from extract_project_id_of_path [OF this] show ?thesis by auto
qed

lemma startswith_append: "startswith u p \<Longrightarrow> \<exists>r. u = p @ r"
  unfolding startswith_def by (metis append_take_drop_id)

lemma clean_tumblbug:
  "clean_url (''https://tumblbug.com/'' @ r)
     = ''https://tumblbug.com/''
       @ filter (\<lambda>c. c \<noteq> CHR 0x09 \<and> c \<noteq> CHR 0x0D \<and> c \<noteq> CHR 0x0A) r"
  by (simp add: clean_url_def)

lemma split_scheme_tumblbug:
  "split_scheme (''https://tumblbug.com/'' @ r) = (''https'', ''//tumblbug.com/'' @ r)"
  by (simp add: split_scheme_def is_alpha_def is_digit_def scheme_char_def lower_def Let_def)

lemma urlparse_tumblbug:
  "urlparse_path lib (''https://tumblbug.com/'' @ r)
     = Inr (path_of ''https''
              (CHR ''/'' # filter (\<lambda>c. c \<noteq> CHR 0x09 \<and> c \<noteq> CHR 0x0D \<and> c \<noteq> CHR 0x0A) r))"
  unfolding urlparse_path_def clean_tumblbug split_scheme_tumblbug
  by (simp add: netloc_delim_def is_ascii_def Let_def)

lemma extract_project_id_tumblbug:
  assumes "startswith u ''https://tumblbug.com/''"
  shows "\<exists>part. extract_project_id lib u = Inr part"
proof -
  from startswith_append [OF assms] obtain r where "u = ''https://tumblbug.com/'' @ r" ..
  with urlparse_tumblbug [of lib r] extract_project_id_of_path show ?thesis by blast
qed

lemma extract_project_id_empty_path:
  "extract_project_id lib ''https://tumblbug.com/'' = Inr ''''"
proof -
  have "urlparse_path lib (''https://tumblbug.com/'' @ []) = Inr ''/''"
    unfolding urlparse_tumblbug by (simp add: path_of_def uses_params_def)
  then show ?thesis by (simp add: extract_project_id_def strip_slash_def)
qed

text \<open>
  A URL whose network location opens a bracket and does not close it: \<open>urlparse\<close>
  raises \<open>ValueError\<close>, and so does \<open>extract_project_id\<close>.
\<close>

theorem extract_project_id_raises_counterexample:
  "extract_project_id lenient ''https://['' = Inl UrlparseValueError"
  by (simp add: extract_project_id_def urlparse_path_def clean_url_def split_scheme_def
      is_alpha_def is_digit_def scheme_char_def lower_def netloc_delim_def Let_def)

text \<open>
  Claim C9, as the code has it. The declared error branch of \<open>extract_project_id\<close> is
  never taken, because splitting the stripped path always yields a non-empty list: the
  function returns whenever \<open>urlparse\<close> does, in particular for every URL that starts
  with \<open>https://tumblbug.com/\<close> (the only ones the project-add command passes on),
  and \<open>https://tumblbug.com/\<close> itself yields the empty identifier. A
  \<open>ValueError\<close> can still leave the function: the one \<open>urlparse\<close> raises.
\<close>

theorem extract_project_id_returns:
  "extract_project_id lib u \<noteq> Inl NoProjectId
   \<and> (\<forall>path. urlparse_path lib u = Inr path \<longrightarrow> (\<exists>part. extract_project_id lib u = Inr part))
   \<and> (startswith u ''https://tumblbug.com/'' \<longrightarrow> (\<exists>part. extract_project_id lib u = Inr part))
   \<and> extract_project_id lib ''https://tumblbug.com/'' = Inr ''''"
  using never_no_project_id [of lib u] extract_project_id_of_path [of lib u]
    extract_project_id_tumblbug [of u lib] extract_project_id_empty_path [of lib]
  by blast

theorem extract_project_id_returns_witness:
  "startswith ''https://tumblbug.com/sample'' ''https://tumblbug.com/''
   \<and> (\<exists>part. extract_project_id lenient ''https://tumblbug.com/sample'' = Inr part)"
proof -
  have s: "startswith ''https://tumblbug.com/sample'' ''https://tumblbug.com/''"
    by (simp add: startswith_def)
  with extract_project_id_returns [of lenient "''https://tumblbug.com/sample''"]
  show ?thesis by blast
qed

section \<open>A funding amount of zero\<close>

text \<open>
  Claim C8. A read that returns the funding amount 0 is handled like a read that
  returns nothing: the price check performs no effect and leaves the stored project as
  it is, and the project-add command answers with the failed-fetch message.
\<close>

theorem zero_funding_is_failure:
  "check_project (ScrapeResult t (Some 0) img) data
     = check_project (ScrapeResult None None None) data
   \<and> effects_of (check_project (ScrapeResult t (Some 0) img) data) = []
   \<and> persist (effects_of (check_project (ScrapeResult t (Some 0) img) data)) data = data
   \<and> (price_element pg = Got 0 \<longrightarrow>
        effects_of (check_project (get_project_data pg) data) = [])
   \<and> project_add lib u (ScrapeResult t (Some 0) img)
       = project_add lib u (ScrapeResult None None None)
   \<and> (startswith u ''https://tumblbug.com/'' \<longrightarrow>
        project_add lib u (ScrapeResult t (Some 0) img) = FetchFailed)"
proof (intro conjI impI)
  show "check_project (ScrapeResult t (Some 0) img) data
          = check_project (ScrapeResult None None None) data"
    by (simp add: check_project_def)
  show "effects_of (check_project (ScrapeResult t (Some 0) img) data) = []"
    by (simp add: check_project_def effects_of_def)
  show "persist (effects_of (check_project (ScrapeResult t (Some 0) img) data)) data = data"
    by (simp add: check_project_def effects_of_def)
  show "project_add lib u (ScrapeResult t (Some 0) img)
          = project_add lib u (ScrapeResult None None None)"
    by (simp add: project_add_def split: sum.splits)
next
  assume "price_element pg = Got 0"
  then show "effects_of (check_project (get_project_data pg) data) = []"
    by (simp add: get_project_data_def outer_handler_def check_project_def effects_of_def
        split: attempt.splits)
next
  assume "startswith u ''https://tumblbug.com/''"
  with extract_project_id_tumblbug [OF this, of lib]
  show "project_add lib u (ScrapeResult t (Some 0) img) = FetchFailed"
    by (auto simp: project_add_def)
qed

theorem zero_funding_is_failure_witness:
  "project_add lenient ''https://tumblbug.com/sample'' (ScrapeResult (Some ''sample'') (Some 0) None)
     = FetchFailed
   \<and> effects_of (check_project (get_project_data zero_page) sample_project) = []"
proof -
  have s: "startswith ''https://tumblbug.com/sample'' ''https://tumblbug.com/''"
    by (simp add: startswith_def)
  have p: "price_element zero_page = Got 0" by (simp add: zero_page_def)
  from zero_funding_is_failure
    [of "Some ''sample''" None sample_project zero_page lenient "''https://tumblbug.com/sample''"]
    s p
  show ?thesis by blast
qed

section \<open>Dispatching a notification\<close>

lemma send_loop_all_attempted:
  assumes "\<forall>c \<in> set (filter (get_channel d) channels). channel_send d c \<noteq> OtherSendException"
  shows "send_loop d channels
           = (map (\<lambda>c. (c, channel_send d c)) (filter (get_channel d) channels), False)"
  using assms
proof (induction channels)
  case Nil
  then show ?case by simp
next
  case (Cons c cs)
  then have ih: "send_loop d cs
                   = (map (\<lambda>c. (c, channel_send d c)) (filter (get_channel d) cs), False)"
    by simp
  show ?case
  proof (cases "get_channel d c")
    case False
    with ih show ?thesis by simp
  next
    case True
    with Cons.prems have "channel_send d c \<noteq> OtherSendException" by simp
    with True ih show ?thesis by (cases "channel_send d c") simp_all
  qed
qed

lemma send_loop_stops:
  assumes "filter (get_channel d) channels = pre @ c # post"
    and "\<forall>x \<in> set pre. channel_send d x \<noteq> OtherSendException"
    and "channel_send d c = OtherSendException"
  shows "send_loop d channels
           = (map (\<lambda>x. (x, channel_send d x)) pre @ [(c, OtherSendException)], True)"
  using assms
proof (induction channels arbitrary: pre)
  case Nil
  then show ?case by simp
next
  case (Cons x xs)
  show ?case
  proof (cases "get_channel d x")
    case False
    with Cons.prems have "filter (get_channel d) xs = pre @ c # post" by simp
    from Cons.IH [OF this Cons.prems(2,3)] False show ?thesis by simp
  next
    case res: True
    show ?thesis
    proof (cases pre)
      case Nil
      with Cons.prems(1) res have "x = c" by simp
      with res Cons.prems(3) Nil show ?thesis by simp
    next
      case (Cons p pre')
      with Cons.prems(1) res have xp: "x = p"
        and f: "filter (get_channel d) xs = pre' @ c # post"
        by simp_all
      from Cons.prems(2) Cons have ok: "channel_send d x \<noteq> OtherSendException"
        and rest: "\<forall>y \<in> set pre'. channel_send d y \<noteq> OtherSendException"
        using xp by simp_all
      from Cons.IH [OF f rest Cons.prems(3)] res ok Cons xp show ?thesis
        by (cases "channel_send d p") simp_all
    qed
  qed
qed

text \<open>
  The send to the first of three channels raises an exception that is not a
  \<open>discord.HTTPException\<close>: the other two channels are not tried and the exception
  leaves \<open>send_notifications\<close>.
\<close>

theorem send_notifications_raises_counterexample:
  "send_notifications broken_discord (Some sample_config) = ([(10, OtherSendException)], True)"
  by (simp add: send_notifications_def broken_discord_def sample_config_def)

text \<open>
  Claim C6, as the code has it. When the lookup of the guild's document raises, nothing
  is sent and the exception leaves \<open>send_notifications\<close>. When the lookup succeeds and
  there is no document, or the document has no \<open>notification_channels\<close>, nothing is sent
  and the function returns. Otherwise deliveries are attempted, in order, to the
  registered channels that \<open>get_channel\<close> resolves. A \<open>discord.HTTPException\<close> of a
  send is logged and the loop goes on: when no send raises an exception of another
  class, every resolved channel is tried, whatever the outcome of the other deliveries,
  and no exception leaves the function. The first send that raises an exception of
  another class ends the dispatch: the resolved channels in front of it have been tried
  (with or without a \<open>discord.HTTPException\<close>), the channels behind it are not tried,
  and the exception leaves the function.
\<close>

theorem send_notifications_isolates_http_failures:
  "(lookup_raises d \<longrightarrow> send_notifications d server_config = ([], True))
   \<and> (\<not> lookup_raises d \<longrightarrow>
        send_notifications d None = ([], False)
        \<and> (notification_channels cfg = None \<longrightarrow> send_notifications d (Some cfg) = ([], False))
        \<and> (notification_channels cfg = Some channels \<longrightarrow>
             ((\<forall>c \<in> set (filter (get_channel d) channels).
                  channel_send d c \<noteq> OtherSendException) \<longrightarrow>
                send_notifications d (Some cfg)
                  = (map (\<lambda>c. (c, channel_send d c)) (filter (get_channel d) channels), False))
             \<and> (\<forall>pre c post.
                   filter (get_channel d) channels = pre @ c # post
                   \<and> (\<forall>x \<in> set pre. channel_send d x \<noteq> OtherSendException)
                   \<and> channel_send d c = OtherSendException \<longrightarrow>
                   send_notifications d (Some cfg)
                     = (map (\<lambda>x. (x, channel_send d x)) pre @ [(c, OtherSendException)],
                        True))))"
proof (intro conjI impI allI)
  assume "lookup_raises d"
  then show "send_notifications d server_config = ([], True)"
    by (simp add: send_notifications_def)
next
  assume "\<not> lookup_raises d"
  then show "send_notifications d None = ([], False)"
    by (simp add: send_notifications_def)
next
  assume "\<not> lookup_raises d" "notification_channels cfg = None"
  then show "send_notifications d (Some cfg) = ([], False)"
    by (simp add: send_notifications_def)
next
  assume l: "\<not> lookup_raises d" and n: "notification_channels cfg = Some channels"
    and ok: "\<forall>c \<in> set (filter (get_channel d) channels). channel_send d c \<noteq> OtherSendException"
  from send_loop_all_attempted [OF ok] l n
  show "send_notifications d (Some cfg)
          = (map (\<lambda>c. (c, channel_send d c)) (filter (get_channel d) channels), False)"
    by (simp add: send_notifications_def)
next
  fix pre c post
  assume l: "\<not> lookup_raises d" and n: "notification_channels cfg = Some channels"
    and st: "filter (get_channel d) channels = pre @ c # post
             \<and> (\<forall>x \<in> set pre. channel_send d x \<noteq> OtherSendException)
             \<and> channel_send d c = OtherSendException"
  from st have f: "filter (get_channel d) channels = pre @ c # post"
    and p: "\<forall>x \<in> set pre. channel_send d x \<noteq> OtherSendException"
    and o: "channel_send d c = OtherSendException"
    by blast+
  from send_loop_stops [OF f p o] l n
  show "send_notifications d (Some cfg)
          = (map (\<lambda>x. (x, channel_send d x)) pre @ [(c, OtherSendException)], True)"
    by (simp add: send_notifications_def)
qed

theorem send_notifications_isolates_http_failures_witness:
  "send_notifications flaky_discord (Some sample_config)
     = ([(10, Delivered), (20, HTTPException), (30, Delivered)], False)
   \<and> send_notifications mixed_discord (Some sample_config)
       = ([(10, HTTPException), (20, OtherSendException)], True)
   \<and> send_notifications lookup_down_discord (Some sample_config) = ([], True)"
proof -
  have n: "notification_channels sample_config = Some [10, 20, 30]"
    by (simp add: sample_config_def)
  have l1: "\<not> lookup_raises flaky_discord" by (simp add: flaky_discord_def)
  have ok: "\<forall>c \<in> set (filter (get_channel flaky_discord) [10, 20, 30]).
              channel_send flaky_discord c \<noteq> OtherSendException"
    by (simp add: flaky_discord_def)
  have v: "map (\<lambda>c. (c, channel_send flaky_discord c)) (filter (get_channel flaky_discord) [10, 20, 30])
             = [(10, Delivered), (20, HTTPException), (30, Delivered)]"
    by (simp add: flaky_discord_def)
  from send_notifications_isolates_http_failures
    [of flaky_discord None sample_config "[10, 20, 30]"] l1 n ok
  have "send_notifications flaky_discord (Some sample_config)
          = (map (\<lambda>c. (c, channel_send flaky_discord c))
                 (filter (get_channel flaky_discord) [10, 20, 30]), False)"
    by blast
  then have one: "send_notifications flaky_discord (Some sample_config)
                    = ([(10, Delivered), (20, HTTPException), (30, Delivered)], False)"
    unfolding v .
  have l2: "\<not> lookup_raises mixed_discord" by (simp add: mixed_discord_def)
  have st: "filter (get_channel mixed_discord) [10, 20, 30] = [10] @ 20 # [30]
            \<and> (\<forall>x \<in> set [10]. channel_send mixed_discord x \<noteq> OtherSendException)
            \<and> channel_send mixed_discord 20 = OtherSendException"
    by (simp add: mixed_discord_def)
  have v2: "map (\<lambda>x. (x, channel_send mixed_discord x)) [10] @ [(20, OtherSendException)]
              = [(10, HTTPException), (20, OtherSendException)]"
    by (simp add: mixed_discord_def)
  from send_notifications_isolates_http_failures
    [of mixed_discord None sample_config "[10, 20, 30]"] l2 n st
  have "send_notifications mixed_discord (Some sample_config)
          = (map (\<lambda>x. (x, channel_send mixed_discord x)) [10] @ [(20, OtherSendException)], True)"
    by blast
  then have two: "send_notifications mixed_discord (Some sample_config)
                    = ([(10, HTTPException), (20, OtherSendException)], True)"
    unfolding v2 .
  have l3: "lookup_raises lookup_down_discord" by (simp add: lookup_down_discord_def)
  from send_notifications_isolates_http_failures
    [of lookup_down_discord "Some sample_config" sample_config "[10, 20, 30]"] l3
  have three: "send_notifications lookup_down_discord (Some sample_config) = ([], True)"
    by blast
  from one two three show ?thesis by blast
qed

section \<open>A tick with failing reads\<close>

lemma project_iteration_returns:
  "project_iteration r pg data = (fst (project_try r pg data), None)"
  by (cases "project_try r pg data") (auto simp: project_iteration_def split: option.splits)

text \<open>
  The inner loop goes through the entries up to the first one without \<open>url\<close>: it
  performs the effects of each of them and raises \<open>KeyError\<close> exactly when there is
  such an entry.
\<close>

lemma for_projects_run:
  "for_projects w g ps
     = (concat (map (\<lambda>(project_id, data).
                       map (\<lambda>eff. (g, project_id, eff))
                           (fst (project_try (raises w g project_id) (pages w g project_id) data)))
                    (takeWhile (\<lambda>(project_id, data). url data \<noteq> None) ps)),
        if list_all (\<lambda>(project_id, data). url data \<noteq> None) ps then None else Some KeyError)"
proof (induction ps)
  case Nil
  then show ?case by simp
next
  case (Cons p ps)
  obtain project_id data where p: "p = (project_id, data)" by (cases p)
  show ?case
  proof (cases "url data")
    case None
    then show ?thesis unfolding p by simp
  next
    case (Some u)
    then show ?thesis unfolding p by (simp add: project_iteration_returns Cons.IH)
  qed
qed

lemma for_projects_well_formed:
  assumes "well_formed cfg"
  shows "for_projects w (guild_id cfg) (monitored_urls cfg) = (own_entries w cfg, None)"
proof -
  let ?has_url = "\<lambda>(project_id, data). url data \<noteq> None"
  from assms have a: "list_all ?has_url (monitored_urls cfg)"
    unfolding well_formed_def .
  then have t: "takeWhile ?has_url (monitored_urls cfg) = monitored_urls cfg"
    unfolding takeWhile_eq_all_conv list_all_iff .
  show ?thesis
    unfolding own_entries_def for_projects_run t if_P [OF a] by (rule refl)
qed

lemma for_projects_raises:
  "snd (for_projects w (guild_id cfg) (monitored_urls cfg))
     = (if well_formed cfg then None else Some KeyError)"
  unfolding for_projects_run well_formed_def by simp

lemma for_projects_subset:
  "set (fst (for_projects w (guild_id cfg) (monitored_urls cfg))) \<subseteq> set (own_entries w cfg)"
proof -
  have "set (takeWhile (\<lambda>(project_id, data). url data \<noteq> None) (monitored_urls cfg))
          \<subseteq> set (monitored_urls cfg)"
    using set_takeWhileD by fastforce
  then show ?thesis
    unfolding own_entries_def for_projects_run by auto
qed

lemma for_guilds_well_formed:
  assumes "list_all well_formed store"
  shows "for_guilds w store = (concat (map (own_entries w) store), None)"
  using assms
proof (induction store)
  case Nil
  then show ?case by simp
next
  case (Cons cfg store)
  then have "well_formed cfg" and ih: "for_guilds w store = (concat (map (own_entries w) store), None)"
    by simp_all
  from for_projects_well_formed [OF this(1), of w] ih show ?case by simp
qed

lemma for_guilds_raises:
  "snd (for_guilds w store) = (if list_all well_formed store then None else Some KeyError)"
proof (induction store)
  case Nil
  then show ?case by simp
next
  case (Cons cfg store)
  show ?case
  proof (cases "well_formed cfg")
    case True
    obtain log' r' where g: "for_guilds w store = (log', r')" by (cases "for_guilds w store")
    from for_projects_well_formed [OF True, of w] Cons.IH True g show ?thesis by simp
  next
    case False
    obtain log r where f: "for_projects w (guild_id cfg) (monitored_urls cfg) = (log, r)"
      by (cases "for_projects w (guild_id cfg) (monitored_urls cfg)")
    with for_projects_raises [of w cfg] False have "r = Some KeyError" by simp
    with f False show ?thesis by simp
  qed
qed

lemma for_guilds_subset:
  "set (fst (for_guilds w store)) \<subseteq> set (concat (map (own_entries w) store))"
proof (induction store)
  case Nil
  then show ?case by simp
next
  case (Cons cfg store)
  obtain log r where f: "for_projects w (guild_id cfg) (monitored_urls cfg) = (log, r)"
    by (cases "for_projects w (guild_id cfg) (monitored_urls cfg)")
  with for_projects_subset [of w cfg] have l: "set log \<subseteq> set (own_entries w cfg)" by simp
  obtain log' r' where g: "for_guilds w store = (log', r')" by (cases "for_guilds w store")
  with Cons.IH have l': "set log' \<subseteq> set (concat (map (own_entries w) store))" by simp
  from l l' show ?case by (cases r) (auto simp: f g)
qed

text \<open>
  A tick over a store in which every entry has a \<open>url\<close> goes through every project of
  every guild, performs for each one exactly its own effects and raises nothing, whatever
  the reads, notifications and store updates of the projects do. A tick raises
  \<open>KeyError\<close> exactly when some entry has no \<open>url\<close>.
\<close>

lemma check_prices_well_formed:
  assumes "connected w" and "list_all well_formed store"
  shows "check_prices w store = (concat (map (own_entries w) store), None)"
  using assms for_guilds_well_formed [of store w] by (simp add: check_prices_def)

lemma check_prices_raises:
  assumes "connected w"
  shows "snd (check_prices w store)
           = (if list_all well_formed store then None else Some KeyError)"
  using assms for_guilds_raises [of w store] by (simp add: check_prices_def)

lemma check_prices_subset:
  "set (fst (check_prices w store)) \<subseteq> set (concat (map (own_entries w) store))"
  using for_guilds_subset [of w store] by (simp add: check_prices_def)

lemma failed_read_no_effect:
  assumes "read_failed (get_project_data pg)"
  shows "fst (project_try r pg data) = []"
proof (cases "get_project_data pg")
  case ScrapeRaised
  then show ?thesis by (simp add: project_try_def check_project_def)
next
  case (ScrapeResult t funding img)
  with assms have "funding = None" by (simp add: read_failed_def)
  with ScrapeResult show ?thesis by (simp add: project_try_def check_project_def)
qed

lemma failed_read_no_entry:
  assumes "read_failed (get_project_data (pages w g project_id))"
  shows "(g, project_id, eff) \<notin> set (own_entries w cfg)"
  using failed_read_no_effect [OF assms]
  by (auto simp: own_entries_def)

text \<open>The stored project after a tick: the effects of the log that address it, applied in order.\<close>

lemma key_updated:
  "map snd (filter (\<lambda>(k, d). k = project_id)
              (map (\<lambda>(k, d). if k = p' then (k, f d) else (k, d)) xs))
     = map (if p' = project_id then f else (\<lambda>d. d))
           (map snd (filter (\<lambda>(k, d). k = project_id) xs))"
  by (induction xs) (auto split: if_splits)

lemma stored_store_update:
  "stored g project_id (store_update (g', p', eff) store)
     = (if g' = g \<and> p' = project_id then map (apply_effect eff) (stored g project_id store)
        else stored g project_id store)"
proof (induction store)
  case Nil
  then show ?case by (simp add: stored_def store_update_def)
next
  case (Cons cfg store)
  have split: "stored g project_id (c # cs)
                 = (if guild_id c = g
                    then map snd (filter (\<lambda>(k, d). k = project_id) (monitored_urls c))
                    else []) @ stored g project_id cs" for c cs
    by (simp add: stored_def)
  have upd: "store_update (g', p', eff) (cfg # store)
               = (if guild_id cfg = g'
                  then cfg\<lparr>monitored_urls :=
                         map (\<lambda>(k, d). if k = p' then (k, apply_effect eff d) else (k, d))
                             (monitored_urls cfg)\<rparr>
                  else cfg) # store_update (g', p', eff) store"
    by (simp add: store_update_def)
  show ?case
    unfolding upd split Cons.IH
    by (simp add: key_updated)
qed

lemma stored_store_after:
  "stored g project_id (store_after log store)
     = map (persist (effects_for g project_id log)) (stored g project_id store)"
proof (induction log arbitrary: store)
  case Nil
  have "persist [] = (\<lambda>d. d)" by (rule ext) simp
  then show ?case by (simp add: effects_for_def)
next
  case (Cons en log)
  obtain g' p' eff where en: "en = (g', p', eff)" by (cases en)
  have "persist (eff # effs) = persist effs \<circ> apply_effect eff" for effs
    by (rule ext) simp
  then show ?case
    unfolding en by (simp add: Cons.IH stored_store_update effects_for_def)
qed

text \<open>
  When the read of a watched project fails (it raises, or it returns no funding), no
  effect of the tick addresses that project, and its stored state after the tick is
  what it was, in every tick and every store.
\<close>

lemma failed_read_state_unchanged:
  assumes "read_failed (get_project_data (pages w g project_id))"
  shows "effects_for g project_id (fst (check_prices w store)) = []
         \<and> stored g project_id (store_after (fst (check_prices w store)) store)
             = stored g project_id store"
proof -
  have "(g, project_id, eff) \<notin> set (fst (check_prices w store))" for eff
    using failed_read_no_entry [OF assms] check_prices_subset [of w store] by auto
  then have "filter (\<lambda>(g', p', eff). g' = g \<and> p' = project_id) (fst (check_prices w store)) = []"
    by (auto simp: filter_empty_conv)
  then have none: "effects_for g project_id (fst (check_prices w store)) = []"
    by (simp add: effects_for_def)
  have "map (persist []) xs = xs" for xs :: "project list"
    by (induction xs) simp_all
  with none show ?thesis by (simp add: stored_store_after)
qed

text \<open>
  A tick over a store in which every entry has a \<open>url\<close>, the guild identifiers are
  distinct and the keys of a guild's dictionary are distinct: the effects that address a
  project are exactly the completed effects of its own iteration, and its stored state
  after the tick is its state before with these effects applied. So a project whose read
  succeeds has its state persisted and its events dispatched whatever the other projects
  do.
\<close>

lemma effects_for_nil: "effects_for g project_id [] = []"
  by (simp add: effects_for_def)

lemma effects_for_append:
  "effects_for g project_id (xs @ ys) = effects_for g project_id xs @ effects_for g project_id ys"
  by (simp add: effects_for_def)

lemma effects_for_tagged:
  "effects_for g project_id (map (\<lambda>eff. (g', k, eff)) es)
     = (if g' = g \<and> k = project_id then es else [])"
  by (induction es) (auto simp: effects_for_def)

lemma effects_for_projects:
  assumes "distinct (map fst ps)" and "(project_id, data) \<in> set ps"
  shows "effects_for g project_id
           (concat (map (\<lambda>(k, d). map (\<lambda>eff. (g, k, eff)) (F k d)) ps)) = F project_id data"
  using assms
proof (induction ps)
  case Nil
  then show ?case by simp
next
  case (Cons p ps)
  obtain k d where p: "p = (k, d)" by (cases p)
  show ?case
  proof (cases "k = project_id")
    case True
    with Cons.prems p have d: "d = data" and notin: "project_id \<notin> fst ` set ps"
      by (auto simp: image_iff)
    have "effects_for g project_id
            (concat (map (\<lambda>(k, d). map (\<lambda>eff. (g, k, eff)) (F k d)) ps)) = []"
      using notin by (induction ps) (auto simp: effects_for_append effects_for_tagged effects_for_def)
    with True d show ?thesis
      unfolding p by (simp add: effects_for_append effects_for_tagged)
  next
    case False
    with Cons.prems p have "(project_id, data) \<in> set ps" "distinct (map fst ps)" by auto
    from Cons.IH [OF this(2,1)] False show ?thesis
      unfolding p by (simp add: effects_for_append effects_for_tagged)
  qed
qed

lemma effects_for_other_guild:
  assumes "guild_id cfg \<noteq> g"
  shows "effects_for g project_id (own_entries w cfg) = []"
proof -
  have "effects_for g project_id
          (concat (map (\<lambda>(k, d). map (\<lambda>eff. (guild_id cfg, k, eff)) (F k d)) ps)) = []" for F ps
    using assms by (induction ps) (auto simp: effects_for_append effects_for_tagged effects_for_def)
  then show ?thesis unfolding own_entries_def .
qed

lemma effects_for_own:
  assumes "distinct (map fst (monitored_urls cfg))"
    and "(project_id, data) \<in> set (monitored_urls cfg)"
  shows "effects_for (guild_id cfg) project_id (own_entries w cfg)
           = fst (project_try (raises w (guild_id cfg) project_id)
                              (pages w (guild_id cfg) project_id) data)"
  unfolding own_entries_def
  by (rule effects_for_projects
      [OF assms, of "guild_id cfg"
        "\<lambda>k d. fst (project_try (raises w (guild_id cfg) k) (pages w (guild_id cfg) k) d)"])

lemma effects_for_store:
  assumes "distinct (map guild_id store)" and "cfg \<in> set store"
  shows "effects_for (guild_id cfg) project_id (concat (map (own_entries w) store))
           = effects_for (guild_id cfg) project_id (own_entries w cfg)"
  using assms
proof (induction store)
  case Nil
  then show ?case by simp
next
  case (Cons c store)
  show ?case
  proof (cases "c = cfg")
    case True
    with Cons.prems have "guild_id cfg \<notin> guild_id ` set store" by simp
    then have "\<forall>c' \<in> set store. guild_id c' \<noteq> guild_id cfg" by (auto simp: image_iff)
    then have "effects_for (guild_id cfg) project_id (concat (map (own_entries w) store)) = []"
      by (induction store) (simp_all add: effects_for_append effects_for_other_guild effects_for_nil)
    with True show ?thesis by (simp add: effects_for_append)
  next
    case False
    with Cons.prems have in': "cfg \<in> set store" and d: "distinct (map guild_id store)"
      and ne: "guild_id c \<noteq> guild_id cfg"
      by auto
    from Cons.IH [OF d in'] effects_for_other_guild [OF ne] show ?thesis
      by (simp add: effects_for_append)
  qed
qed

lemma stored_one:
  assumes "distinct (map guild_id store)" and "cfg \<in> set store"
    and "distinct (map fst (monitored_urls cfg))"
    and "(project_id, data) \<in> set (monitored_urls cfg)"
  shows "stored (guild_id cfg) project_id store = [data]"
proof -
  have one: "map snd (filter (\<lambda>(k, d). k = project_id) ps) = [data]"
    if "distinct (map fst ps)" "(project_id, data) \<in> set ps" for ps
    using that
  proof (induction ps)
    case Nil
    then show ?case by simp
  next
    case (Cons p ps)
    obtain k d where p: "p = (k, d)" by (cases p)
    show ?case
    proof (cases "k = project_id")
      case True
      with Cons.prems p have d: "d = data" and notin: "project_id \<notin> fst ` set ps"
        by (auto simp: image_iff)
      from notin have "filter (\<lambda>(k, d). k = project_id) ps = []"
        by (auto simp: filter_empty_conv image_iff)
      with True d show ?thesis unfolding p by simp
    next
      case False
      with Cons.prems p have "(project_id, data) \<in> set ps" "distinct (map fst ps)" by auto
      from Cons.IH [OF this(2,1)] False show ?thesis unfolding p by simp
    qed
  qed
  from assms(1,2) show ?thesis
  proof (induction store)
    case Nil
    then show ?case by simp
  next
    case (Cons c store)
    have split: "stored g project_id (c # cs)
                   = (if guild_id c = g
                      then map snd (filter (\<lambda>(k, d). k = project_id) (monitored_urls c))
                      else []) @ stored g project_id cs" for c cs g
      by (simp add: stored_def)
    show ?case
    proof (cases "c = cfg")
      case True
      with Cons.prems have "guild_id cfg \<notin> guild_id ` set store" by simp
    then have "\<forall>c' \<in> set store. guild_id c' \<noteq> guild_id cfg" by (auto simp: image_iff)
      then have "stored (guild_id cfg) project_id store = []"
        by (induction store) (simp_all add: split, simp add: stored_def)
      with True one [OF assms(3,4)] show ?thesis unfolding split by simp
    next
      case False
      with Cons.prems have in': "cfg \<in> set store" and d: "distinct (map guild_id store)"
        and ne: "guild_id c \<noteq> guild_id cfg"
        by auto
      from Cons.IH [OF d in'] ne show ?thesis unfolding split by simp
    qed
  qed
qed

lemma well_formed_tick_persists:
  assumes "connected w" and "list_all well_formed store"
    and "distinct (map guild_id store)" and "cfg \<in> set store"
    and "distinct (map fst (monitored_urls cfg))"
    and "(project_id, data) \<in> set (monitored_urls cfg)"
  shows "effects_for (guild_id cfg) project_id (fst (check_prices w store))
           = fst (project_try (raises w (guild_id cfg) project_id)
                              (pages w (guild_id cfg) project_id) data)
         \<and> stored (guild_id cfg) project_id (store_after (fst (check_prices w store)) store)
             = [persist (fst (project_try (raises w (guild_id cfg) project_id)
                                          (pages w (guild_id cfg) project_id) data)) data]"
  unfolding check_prices_well_formed [OF assms(1,2)] fst_conv stored_store_after
    effects_for_store [OF assms(3,4)] effects_for_own [OF assms(5,6)]
    stored_one [OF assms(3,4,5,6)]
  by simp

text \<open>
  The project-add command accepts a URL whose first path segment contains a dot and
  stores the project under that identifier; the store then nests the entry at the dot
  and the key \<open>a\<close> of the dictionary holds an entry without \<open>url\<close>.
\<close>

lemma extract_project_id_dotted:
  "extract_project_id lib ''https://tumblbug.com/a.b/../sample'' = Inr ''a.b''"
proof -
  have "urlparse_path lib (''https://tumblbug.com/'' @ ''a.b/../sample'') = Inr ''/a.b/../sample''"
    unfolding urlparse_tumblbug by (simp add: path_of_def)
  then show ?thesis by (simp add: extract_project_id_def strip_slash_def)
qed

lemma project_add_dotted_identifier:
  "project_add lib ''https://tumblbug.com/a.b/../sample'' (sample_read 900000)
     = ProjectAdded ''a.b''
         \<lparr>url = Some ''https://tumblbug.com/a.b/../sample'', title = ''sample'',
          initial_funding = Some 900000, thresholds = []\<rparr>"
  by (simp add: project_add_def extract_project_id_dotted startswith_def sample_read_def)

text \<open>
  Claim C5 at a store the bot writes itself. The claim says that no failure of one
  project ends the processing of the other projects and guilds, and the loop body is a
  \<open>try\<close> with \<open>except Exception\<close> to that end; its first statement,
  \<open>url = data['url']\<close>, stands in front of the \<open>try\<close>. In a tick over a guild with
  three entries, the first with a failing read, the second without \<open>url\<close> and the
  third with a read of 1,050,000, and over a second guild, the \<open>KeyError\<close> of the
  second entry leaves \<open>check_prices\<close>: the third project and the second guild are not
  processed, nothing is dispatched and the stored state of the third project stays at
  900,000. In the same tick without the second entry the failing read changes nothing,
  the other project and the second guild are processed, their milestone 1,000,000 is
  dispatched and stored, and nothing is raised, as the claim says.
\<close>

theorem tick_ends_at_entry_without_url:
  "check_prices sample_world [nested_config, second_guild] = ([], Some KeyError)
   \<and> stored 1 ''sample'' (store_after (fst (check_prices sample_world [nested_config, second_guild]))
                                       [nested_config, second_guild])
       = [sample_project]
   \<and> stored 2 ''sample'' (store_after (fst (check_prices sample_world [nested_config, second_guild]))
                                       [nested_config, second_guild])
       = [sample_project]
   \<and> check_prices sample_world [two_projects, second_guild]
       = ([(1, ''sample'', Notify (MilestoneEvent 1000000)),
           (1, ''sample'', SetInitialFunding 1000000),
           (2, ''sample'', Notify (MilestoneEvent 1000000)),
           (2, ''sample'', SetInitialFunding 1000000)], None)
   \<and> stored 1 ''failing'' (store_after (fst (check_prices sample_world [two_projects, second_guild]))
                                        [two_projects, second_guild])
       = [sample_project]
   \<and> stored 1 ''sample'' (store_after (fst (check_prices sample_world [two_projects, second_guild]))
                                       [two_projects, second_guild])
       = [sample_project\<lparr>initial_funding := Some 1000000\<rparr>]
   \<and> stored 2 ''sample'' (store_after (fst (check_prices sample_world [two_projects, second_guild]))
                                       [two_projects, second_guild])
       = [sample_project\<lparr>initial_funding := Some 1000000\<rparr>]"
proof -
  have bad: "check_prices sample_world [nested_config, second_guild] = ([], Some KeyError)"
    by (simp add: check_prices_def nested_config_def nested_entry_def second_guild_def
        sample_config_def sample_world_def sample_project_def failing_page_def zero_page_def
        get_project_data_def outer_handler_def project_iteration_def project_try_def
        check_project_def)
  have good: "check_prices sample_world [two_projects, second_guild]
                = ([(1, ''sample'', Notify (MilestoneEvent 1000000)),
                    (1, ''sample'', SetInitialFunding 1000000),
                    (2, ''sample'', Notify (MilestoneEvent 1000000)),
                    (2, ''sample'', SetInitialFunding 1000000)], None)"
    by (simp add: check_prices_def two_projects_def second_guild_def sample_config_def
        sample_world_def sample_project_def failing_page_def good_page_def zero_page_def
        get_project_data_def outer_handler_def project_iteration_def project_try_def
        check_project_def check_custom_thresholds_def Let_def)
  have s1: "stored 1 ''sample'' [nested_config, second_guild] = [sample_project]"
    and s2: "stored 2 ''sample'' [nested_config, second_guild] = [sample_project]"
    and s3: "stored 1 ''failing'' [two_projects, second_guild] = [sample_project]"
    and s4: "stored 1 ''sample'' [two_projects, second_guild] = [sample_project]"
    and s5: "stored 2 ''sample'' [two_projects, second_guild] = [sample_project]"
    by (simp_all add: stored_def nested_config_def two_projects_def second_guild_def
        sample_config_def)
  show ?thesis
    unfolding bad good fst_conv stored_store_after s1 s2 s3 s4 s5
    by (simp add: effects_for_def)
qed

end
